theory Spec2Isabelle
  imports Main "HOL-Library.Multiset" "HOL-Library.Sublist"
begin

section \<open>After School Manager: sync pass, roster assembly, daily email\<close>

text \<open>
  The development follows the TypeScript and JavaScript sources of the repository:
  \<^item> \<^verbatim>\<open>src/app/api/sync-asp-data/route.ts\<close>: the sync pass (\<^verbatim>\<open>POST\<close>),
    \<^verbatim>\<open>parseMeetingTimes\<close>, \<^verbatim>\<open>extractClassName\<close>;
  \<^item> the sync script (\<^verbatim>\<open>scripts/sync-asp-data.js\<close>, second file of
    \<^verbatim>\<open>src/unnamed/part_003\<close>): its own \<^verbatim>\<open>parseMeetingTimes\<close>;
  \<^item> \<^verbatim>\<open>src/app/api/send-daily-email/route.ts\<close> and
    \<^verbatim>\<open>src/supabase/functions/send-asp-daily-email/index.ts\<close>: the daily roster email;
  \<^item> the class detail page (\<^verbatim>\<open>src/app/class/[id]/page.tsx\<close> and its later revision, the
    second file of \<^verbatim>\<open>src/app/layout.tsx\<close>): \<^verbatim>\<open>loadEnrollments\<close>.

  Strings are lists of 8-bit characters, which stand for the code units U+0000 to U+00FF
  of the strings of the sources; text with a code unit above U+00FF is outside of what the
  development covers. On these code units \<^verbatim>\<open>\d\<close> matches the ten decimal digits, and
  \<^verbatim>\<open>\s\<close> and \<^verbatim>\<open>trim()\<close> match tab, line feed, vertical tab, form feed, carriage return,
  space and the no-break space U+00A0 (the other characters they match, U+1680, U+2000 to
  U+200A, U+2028, U+2029, U+202F, U+205F, U+3000 and U+FEFF, are above U+00FF). The flag
  \<^verbatim>\<open>i\<close> and \<^verbatim>\<open>toLowerCase()\<close> are only used against ASCII literals, which no character
  outside of ASCII matches in either case.
\<close>

subsection \<open>Characters and numerals\<close>

definition is_digit :: "char \<Rightarrow> bool" where
  "is_digit c = (c \<in> set ''0123456789'')"

definition is_space :: "char \<Rightarrow> bool" where
  "is_space c = (c \<in> {CHR 0x09, CHR 0x0A, CHR 0x0B, CHR 0x0C, CHR 0x0D, CHR '' '', CHR 0xA0})"

definition digit_val :: "char \<Rightarrow> nat" where
  "digit_val c = of_char c - 48"

text \<open>\<^verbatim>\<open>Number(s)\<close> on a string of decimal digits.\<close>

definition Number_digits :: "string \<Rightarrow> nat" where
  "Number_digits s = foldl (\<lambda>n c. 10 * n + digit_val c) 0 s"

text \<open>\<^verbatim>\<open>n.toString()\<close> for a natural number.\<close>

fun toString_nat :: "nat \<Rightarrow> string" where
  "toString_nat n =
     (if n < 10 then [''0123456789'' ! n]
      else toString_nat (n div 10) @ [''0123456789'' ! (n mod 10)])"

declare toString_nat.simps [simp del]

text \<open>\<^verbatim>\<open>s.padStart(2, '0')\<close>.\<close>

definition padStart2 :: "string \<Rightarrow> string" where
  "padStart2 s = replicate (2 - length s) (CHR ''0'') @ s"

definition starts_with :: "string \<Rightarrow> string \<Rightarrow> bool" where
  "starts_with p s = (take (length p) s = p)"

subsection \<open>Meeting times: the route's parser\<close>

text \<open>
  \<^verbatim>\<open>parseMeetingTimes\<close> of \<^verbatim>\<open>sync-asp-data/route.ts\<close> (lines 31-57). The result has a day
  and two times; the route's parser always fills the times, the script's parser may leave
  them \<^verbatim>\<open>null\<close>, so both return the same record with optional times.
\<close>

record meeting =
  m_day_of_week :: string
  m_start_time :: "string option"
  m_end_time :: "string option"

definition defaults :: meeting where
  "defaults = \<lparr>m_day_of_week = ''Unknown'', m_start_time = Some ''15:45:00'',
                m_end_time = Some ''17:00:00''\<rparr>"

text \<open>\<^verbatim>\<open>/^(Monday|Tuesday|Wednesday|Thursday|Friday)/\<close>: the first alternative that is a prefix.\<close>

definition weekdays :: "string list" where
  "weekdays = [''Monday'', ''Tuesday'', ''Wednesday'', ''Thursday'', ''Friday'']"

definition dayMatch :: "string \<Rightarrow> string option" where
  "dayMatch s = find (\<lambda>d. starts_with d s) weekdays"

text \<open>The two alternatives of \<^verbatim>\<open>(AM|PM)\<close>.\<close>

definition periods :: "string list" where
  "periods = [''AM'', ''PM'']"

text \<open>
  \<^verbatim>\<open>(\d{1,2}:\d{2})\<close> at the head of a string: the matched text and the rest. One or two
  digits, a colon, exactly two digits; the two readings exclude each other (the second
  character is a digit or the colon).
\<close>

fun match_hhmm :: "string \<Rightarrow> (string \<times> string) option" where
  "match_hhmm (a # b # c # d # e # rest) =
     (if is_digit a \<and> is_digit b \<and> c = CHR '':'' \<and> is_digit d \<and> is_digit e
        then Some ([a, b, c, d, e], rest)
      else if is_digit a \<and> b = CHR '':'' \<and> is_digit c \<and> is_digit d
        then Some ([a, b, c, d], e # rest)
      else None)"
| "match_hhmm [a, b, c, d] =
     (if is_digit a \<and> b = CHR '':'' \<and> is_digit c \<and> is_digit d
        then Some ([a, b, c, d], []) else None)"
| "match_hhmm _ = None"

text \<open>\<^verbatim>\<open>\s*(AM|PM)\<close> at the head of a string.\<close>

definition match_period :: "string \<Rightarrow> (string \<times> string) option" where
  "match_period s =
     (let r = dropWhile is_space s in
      if starts_with ''AM'' r then Some (''AM'', drop 2 r)
      else if starts_with ''PM'' r then Some (''PM'', drop 2 r)
      else None)"

text \<open>
  \<^verbatim>\<open>(\d{1,2}:\d{2})\s*(AM|PM)\s*-\s*(\d{1,2}:\d{2})\s*(AM|PM)\<close> anchored at the head of the
  string: the four groups. Every \<^verbatim>\<open>\s*\<close> is followed by a character that is no space, so
  the greedy reading is the only one.
\<close>

definition time_at :: "string \<Rightarrow> (string \<times> string \<times> string \<times> string) option" where
  "time_at s =
     (case match_hhmm s of None \<Rightarrow> None
      | Some (t1, r1) \<Rightarrow>
     (case match_period r1 of None \<Rightarrow> None
      | Some (p1, r2) \<Rightarrow>
     (case dropWhile is_space r2 of [] \<Rightarrow> None
      | c # r3 \<Rightarrow>
        if c \<noteq> CHR ''-'' then None else
     (case match_hhmm (dropWhile is_space r3) of None \<Rightarrow> None
      | Some (t2, r4) \<Rightarrow>
     (case match_period r4 of None \<Rightarrow> None
      | Some (p2, r5) \<Rightarrow> Some (t1, p1, t2, p2))))))"

text \<open>The unanchored search: the leftmost position where the pattern matches.\<close>

fun timeMatch :: "string \<Rightarrow> (string \<times> string \<times> string \<times> string) option" where
  "timeMatch [] = None"
| "timeMatch (c # cs) =
     (case time_at (c # cs) of Some g \<Rightarrow> Some g | None \<Rightarrow> timeMatch cs)"

text \<open>
  \<^verbatim>\<open>convertTo24Hour\<close>: \<^verbatim>\<open>time.split(':').map(Number)\<close> on a text matched by
  \<^verbatim>\<open>\d{1,2}:\d{2}\<close>, then the 12-hour adjustment and the zero padding.
\<close>

definition convertTo24Hour :: "string \<Rightarrow> string \<Rightarrow> string" where
  "convertTo24Hour time period =
     (let hours = Number_digits (takeWhile (\<lambda>c. c \<noteq> CHR '':'') time);
          minutes = Number_digits (drop 1 (dropWhile (\<lambda>c. c \<noteq> CHR '':'') time));
          h = (if period = ''PM'' \<and> hours \<noteq> 12 then hours + 12
               else if period = ''AM'' \<and> hours = 12 then 0 else hours)
      in padStart2 (toString_nat h) @ '':'' @ padStart2 (toString_nat minutes) @ '':00'')"

text \<open>The argument is \<^verbatim>\<open>None\<close> for a \<^verbatim>\<open>null\<close> column; \<^verbatim>\<open>!meetingTimes\<close> also holds of the
  empty string.\<close>

definition parseMeetingTimes :: "string option \<Rightarrow> meeting" where
  "parseMeetingTimes meetingTimes =
     (case meetingTimes of None \<Rightarrow> defaults
      | Some s \<Rightarrow>
        if s = [] then defaults else
        (case dayMatch s of None \<Rightarrow> defaults
         | Some day \<Rightarrow>
           (case timeMatch s of
              None \<Rightarrow> \<lparr>m_day_of_week = day, m_start_time = m_start_time defaults,
                       m_end_time = m_end_time defaults\<rparr>
            | Some (t1, p1, t2, p2) \<Rightarrow>
                \<lparr>m_day_of_week = day, m_start_time = Some (convertTo24Hour t1 p1),
                 m_end_time = Some (convertTo24Hour t2 p2)\<rparr>)))"

subsection \<open>Meeting times: the script's parser\<close>

text \<open>
  \<^verbatim>\<open>parseMeetingTimes\<close> of the sync script (\<^verbatim>\<open>part_003\<close>, lines 296-331), for strings like
  \<^verbatim>\<open>M:3:45 - 5:00\<close>.
\<close>

definition dayMap :: "char \<Rightarrow> string option" where
  "dayMap c =
     map_of [(CHR ''M'', ''Monday''), (CHR ''T'', ''Tuesday''), (CHR ''W'', ''Wednesday''),
             (CHR ''R'', ''Thursday''), (CHR ''F'', ''Friday'')] c"

text \<open>\<^verbatim>\<open>dayMap[c] || c\<close>.\<close>

definition day_of_code :: "char \<Rightarrow> string" where
  "day_of_code c = (case dayMap c of Some d \<Rightarrow> d | None \<Rightarrow> [c])"

text \<open>\<^verbatim>\<open>(\d+:\d+)\<close> at the head of a string: the matched text and the rest.\<close>

definition match_hm :: "string \<Rightarrow> (string \<times> string) option" where
  "match_hm s =
     (let h = takeWhile is_digit s; r = dropWhile is_digit s in
      if h = [] then None else
      (case r of [] \<Rightarrow> None
       | c # r' \<Rightarrow>
         if c \<noteq> CHR '':'' then None else
         (let m = takeWhile is_digit r' in
          if m = [] then None else Some (h @ '':'' @ m, dropWhile is_digit r'))))"

text \<open>\<^verbatim>\<open>/^([MTWRF]):(\d+:\d+)\s*-\s*(\d+:\d+)$/\<close>: the three groups.\<close>

definition script_match :: "string \<Rightarrow> (char \<times> string \<times> string) option" where
  "script_match s =
     (case s of [] \<Rightarrow> None
      | d # s1 \<Rightarrow>
        if d \<notin> set ''MTWRF'' then None else
        (case s1 of [] \<Rightarrow> None
         | c # s2 \<Rightarrow>
           if c \<noteq> CHR '':'' then None else
           (case match_hm s2 of None \<Rightarrow> None
            | Some (t1, r1) \<Rightarrow>
              (case dropWhile is_space r1 of [] \<Rightarrow> None
               | c' # r2 \<Rightarrow>
                 if c' \<noteq> CHR ''-'' then None else
                 (case match_hm (dropWhile is_space r2) of None \<Rightarrow> None
                  | Some (t2, r3) \<Rightarrow> if r3 = [] then Some (d, t1, t2) else None)))))"

definition script_parseMeetingTimes :: "string option \<Rightarrow> meeting" where
  "script_parseMeetingTimes meetingTimes =
     (case meetingTimes of
        None \<Rightarrow> \<lparr>m_day_of_week = ''Unknown'', m_start_time = None, m_end_time = None\<rparr>
      | Some s \<Rightarrow>
        if s = [] then \<lparr>m_day_of_week = ''Unknown'', m_start_time = None, m_end_time = None\<rparr>
        else
        (case script_match s of
           Some (d, t1, t2) \<Rightarrow>
             \<lparr>m_day_of_week = day_of_code d, m_start_time = Some (t1 @ '':00''),
              m_end_time = Some (t2 @ '':00'')\<rparr>
         | None \<Rightarrow>
           (case s of
              d # _ \<Rightarrow>
                if d \<in> set ''MTWRF''
                then \<lparr>m_day_of_week = day_of_code d, m_start_time = None, m_end_time = None\<rparr>
                else \<lparr>m_day_of_week = ''Unknown'', m_start_time = None, m_end_time = None\<rparr>
            | [] \<Rightarrow> \<lparr>m_day_of_week = ''Unknown'', m_start_time = None, m_end_time = None\<rparr>)))"

subsection \<open>Class names\<close>

text \<open>
  \<^verbatim>\<open>extractClassName\<close> (route.ts, lines 60-65):
  \<^verbatim>\<open>.replace(/\s*ASP Semester \d+\s*/gi, '').replace(/\s+$/, '').trim()\<close>.
\<close>

definition toLowerCase_char :: "char \<Rightarrow> char" where
  "toLowerCase_char c =
     (case map_of (zip ''ABCDEFGHIJKLMNOPQRSTUVWXYZ'' ''abcdefghijklmnopqrstuvwxyz'') c of
        Some l \<Rightarrow> l | None \<Rightarrow> c)"

definition toLowerCase :: "string \<Rightarrow> string" where
  "toLowerCase s = map toLowerCase_char s"

text \<open>
  The length of the match of \<^verbatim>\<open>\s*ASP Semester \d+\s*\<close> (flag \<^verbatim>\<open>i\<close>) at the head of a
  string, if there is one: the spaces, the 13 characters of the literal, the digits (at
  least one), the spaces.
\<close>

definition semester_match :: "string \<Rightarrow> nat option" where
  "semester_match s =
     (let ws = takeWhile is_space s; r = dropWhile is_space s in
      if toLowerCase (take 13 r) \<noteq> ''asp semester '' then None else
      (let ds = takeWhile is_digit (drop 13 r); r' = dropWhile is_digit (drop 13 r) in
       if ds = [] then None
       else Some (length ws + 13 + length ds + length (takeWhile is_space r'))))"

text \<open>
  The global replacement by the empty string, left to right; \<open>skip\<close> counts the characters
  of the current match that are still to be dropped.
\<close>

fun remove_semester :: "nat \<Rightarrow> string \<Rightarrow> string" where
  "remove_semester skip [] = []"
| "remove_semester skip (c # cs) =
     (if 0 < skip then remove_semester (skip - 1) cs
      else (case semester_match (c # cs) of
              Some n \<Rightarrow> remove_semester (n - 1) cs
            | None \<Rightarrow> c # remove_semester 0 cs))"

definition trimEnd :: "string \<Rightarrow> string" where
  "trimEnd s = rev (dropWhile is_space (rev s))"

definition trim :: "string \<Rightarrow> string" where
  "trim s = dropWhile is_space (trimEnd s)"

definition extractClassName :: "string \<Rightarrow> string" where
  "extractClassName programName = trim (trimEnd (remove_semester 0 programName))"

subsection \<open>The store\<close>

text \<open>
  The tables \<^verbatim>\<open>asp_classes\<close> and \<^verbatim>\<open>asp_enrollments\<close> with the columns of the interfaces
  \<^verbatim>\<open>ASPClass\<close> and \<^verbatim>\<open>ASPEnrollment\<close> (\<^verbatim>\<open>types/asp.ts\<close>, first file of \<^verbatim>\<open>part_000\<close>) and
  the column \<^verbatim>\<open>capacity\<close> the sync writes. Row ids are generated by the store; they are
  opaque here (natural numbers), and as non-empty strings in the store they are truthy in
  the source's tests \<^verbatim>\<open>if (existingId)\<close> and \<^verbatim>\<open>if (!classUuid)\<close>. The columns \<^verbatim>\<open>status\<close>
  and \<^verbatim>\<open>source\<close> are text columns: the sync writes a status that the interface does not
  list.
\<close>

type_synonym uuid = nat
type_synonym timestamp = nat

record asp_class =
  c_id :: uuid
  c_vc_class_id :: string
  c_class_name :: string
  c_instructor :: "string option"
  c_room :: "string option"
  c_day_of_week :: string
  c_start_time :: "string option"
  c_end_time :: "string option"
  c_semester :: "string option"
  c_school_year :: "string option"
  c_min_grade :: "string option"
  c_max_grade :: "string option"
  c_capacity :: "int option"
  c_is_active :: bool
  c_last_vc_sync :: "timestamp option"
  c_created_at :: timestamp

record asp_enrollment =
  e_id :: uuid
  e_class_id :: uuid
  e_student_person_id :: int
  e_status :: string
  e_source :: string
  e_enrollment_type :: "string option"
  e_fee_paid :: bool
  e_effective_start :: "string option"
  e_effective_end :: "string option"
  e_notes :: "string option"
  e_removal_reason :: "string option"
  e_created_by :: "string option"
  e_created_at :: timestamp
  e_updated_by :: "string option"
  e_updated_at :: timestamp

text \<open>The counts the pass records in \<^verbatim>\<open>asp_audit_log\<close> (route.ts, lines 260-272).\<close>

record sync_counts =
  classes_inserted :: nat
  classes_updated :: nat
  classes_deactivated :: nat
  enrollments_upserted :: nat
  enrollments_deactivated :: nat
  error_count :: nat
  duration_ms :: nat

record audit_entry =
  a_action :: string
  a_entity_type :: string
  a_new_value :: sync_counts

record store =
  asp_classes :: "asp_class list"
  asp_enrollments :: "asp_enrollment list"
  system_last_vc_sync :: "timestamp option"
  asp_audit_log :: "audit_entry list"
  next_id :: uuid

subsection \<open>The feed\<close>

text \<open>The rows of the two BigQuery queries (route.ts, lines 83-108).\<close>

record bq_class =
  r_vc_class_id :: string
  r_program_name :: string
  r_meeting_times :: "string option"
  r_instructor :: "string option"
  r_capacity :: "int option"

record bq_enrollment =
  q_vc_class_id :: string
  q_student_person_id :: int
  q_enrollment_status :: "string option"

subsection \<open>The sync pass\<close>

text \<open>\<^verbatim>\<open>classData\<close> (lines 138-147): the columns an update or insert of a class writes.\<close>

record class_data =
  d_vc_class_id :: string
  d_class_name :: string
  d_day_of_week :: string
  d_start_time :: "string option"
  d_end_time :: "string option"
  d_instructor :: "string option"
  d_capacity :: "int option"
  d_is_active :: bool

definition classData :: "bq_class \<Rightarrow> class_data" where
  "classData row =
     (let parsed = parseMeetingTimes (r_meeting_times row);
          className = extractClassName (r_program_name row)
      in \<lparr>d_vc_class_id = r_vc_class_id row,
          d_class_name = className,
          d_day_of_week = m_day_of_week parsed,
          d_start_time = m_start_time parsed,
          d_end_time = m_end_time parsed,
          d_instructor = (case r_instructor row of None \<Rightarrow> None
                          | Some i \<Rightarrow> if i = [] then None else Some i),
          d_capacity = (case r_capacity row of None \<Rightarrow> None
                        | Some n \<Rightarrow> if n = 0 then None else Some n),
          d_is_active = True\<rparr>)"

text \<open>\<^verbatim>\<open>.update(classData)\<close> on one row.\<close>

definition update_class :: "class_data \<Rightarrow> asp_class \<Rightarrow> asp_class" where
  "update_class d c =
     c\<lparr>c_vc_class_id := d_vc_class_id d, c_class_name := d_class_name d,
       c_day_of_week := d_day_of_week d, c_start_time := d_start_time d,
       c_end_time := d_end_time d, c_instructor := d_instructor d,
       c_capacity := d_capacity d, c_is_active := d_is_active d\<rparr>"

text \<open>
  \<^verbatim>\<open>.insert(classData)\<close>: the new row has a fresh id; the columns the insert does not name
  are empty, and \<^verbatim>\<open>created_at\<close> is the time of the insert.
\<close>

definition insert_class :: "uuid \<Rightarrow> timestamp \<Rightarrow> class_data \<Rightarrow> asp_class" where
  "insert_class new_id now d =
     \<lparr>c_id = new_id, c_vc_class_id = d_vc_class_id d, c_class_name = d_class_name d,
      c_instructor = d_instructor d, c_room = None, c_day_of_week = d_day_of_week d,
      c_start_time = d_start_time d, c_end_time = d_end_time d, c_semester = None,
      c_school_year = None, c_min_grade = None, c_max_grade = None,
      c_capacity = d_capacity d, c_is_active = d_is_active d, c_last_vc_sync = None,
      c_created_at = now\<rparr>"

text \<open>
  The variables of \<^verbatim>\<open>POST\<close> during a pass, together with the two tables and the store's id
  generator. \<open>writes\<close> counts the writes whose \<^verbatim>\<open>error\<close> the source inspects (update and
  insert of a class, upsert of an enrollment); a fault schedule tells for each of them, by
  its number, whether the store rejects it and with which message. The selects, the two
  deactivation updates and the writes of steps 7 and 8, whose result the source does not
  inspect, are taken to succeed.
\<close>

type_synonym faults = "nat \<Rightarrow> string option"

definition no_faults :: faults where
  "no_faults = (\<lambda>_. None)"

record sync_state =
  s_classes :: "asp_class list"
  s_enrollments :: "asp_enrollment list"
  s_next_id :: uuid
  writes :: nat
  classIdMap :: "string \<rightharpoonup> uuid"
  bqClassIds :: "string set"
  bqEnrollmentKeys :: "(uuid \<times> int) set"
  classesInserted :: nat
  classesUpdated :: nat
  classesDeactivated :: nat
  enrollmentsUpserted :: nat
  enrollmentsDeactivated :: nat
  errors :: "string list"

text \<open>\<^verbatim>\<open>select('id, vc_class_id')\<close> and the map built from it (lines 119-126).\<close>

definition existingClasses :: "asp_class list \<Rightarrow> (uuid \<times> string) list" where
  "existingClasses cs = map (\<lambda>c. (c_id c, c_vc_class_id c)) cs"

definition initial_classIdMap :: "(uuid \<times> string) list \<Rightarrow> (string \<rightharpoonup> uuid)" where
  "initial_classIdMap existing = fold (\<lambda>(i, v) m. m(v \<mapsto> i)) existing Map.empty"

definition initial_state :: "store \<Rightarrow> sync_state" where
  "initial_state S =
     \<lparr>s_classes = asp_classes S, s_enrollments = asp_enrollments S, s_next_id = next_id S,
      writes = 0, classIdMap = initial_classIdMap (existingClasses (asp_classes S)),
      bqClassIds = {}, bqEnrollmentKeys = {},
      classesInserted = 0, classesUpdated = 0, classesDeactivated = 0,
      enrollmentsUpserted = 0, enrollmentsDeactivated = 0, errors = []\<rparr>"

text \<open>Step 3, one iteration of the loop over \<^verbatim>\<open>classRows\<close> (lines 131-178).\<close>

definition sync_class :: "faults \<Rightarrow> timestamp \<Rightarrow> bq_class \<Rightarrow> sync_state \<Rightarrow> sync_state" where
  "sync_class flt now row st =
     (let vcClassId = r_vc_class_id row;
          st1 = st\<lparr>bqClassIds := insert vcClassId (bqClassIds st)\<rparr>;
          d = classData row
      in case classIdMap st vcClassId of
           Some existingId \<Rightarrow>
             (case flt (writes st) of
                Some msg \<Rightarrow>
                  st1\<lparr>writes := Suc (writes st),
                      errors := errors st @ [''Failed to update class '' @ vcClassId @ '': '' @ msg]\<rparr>
              | None \<Rightarrow>
                  st1\<lparr>writes := Suc (writes st),
                      s_classes := map (\<lambda>c. if c_id c = existingId then update_class d c else c)
                                       (s_classes st),
                      classesUpdated := Suc (classesUpdated st)\<rparr>)
         | None \<Rightarrow>
             (case flt (writes st) of
                Some msg \<Rightarrow>
                  st1\<lparr>writes := Suc (writes st),
                      errors := errors st @ [''Failed to insert class '' @ vcClassId @ '': '' @ msg]\<rparr>
              | None \<Rightarrow>
                  st1\<lparr>writes := Suc (writes st),
                      s_classes := s_classes st @ [insert_class (s_next_id st) now d],
                      s_next_id := Suc (s_next_id st),
                      classesInserted := Suc (classesInserted st),
                      classIdMap := (classIdMap st)(vcClassId \<mapsto> s_next_id st)\<rparr>))"

text \<open>Step 4, one iteration of the loop over \<^verbatim>\<open>existingClasses\<close> (lines 181-191).\<close>

definition deactivate_class :: "uuid \<times> string \<Rightarrow> sync_state \<Rightarrow> sync_state" where
  "deactivate_class existing st =
     (if snd existing \<notin> bqClassIds st
      then st\<lparr>s_classes := map (\<lambda>c. if c_id c = fst existing then c\<lparr>c_is_active := False\<rparr> else c)
                                 (s_classes st),
              classesDeactivated := Suc (classesDeactivated st)\<rparr>
      else st)"

text \<open>
  \<^verbatim>\<open>.upsert({class_id, student_person_id, enrollment_type, source: 'veracross', status:
  'active'}, { onConflict: 'class_id,student_person_id' })\<close> (lines 211-219): the conflict
  target is the pair of columns, whatever the source of the row that holds it; that row
  (the target names a unique key, so there is at most one) takes the five columns, and
  without a conflict a new row is inserted.
\<close>

definition merge_enrollment :: "uuid \<Rightarrow> int \<Rightarrow> string \<Rightarrow> asp_enrollment \<Rightarrow> asp_enrollment" where
  "merge_enrollment classUuid studentPersonId enrollmentType e =
     e\<lparr>e_class_id := classUuid, e_student_person_id := studentPersonId,
       e_enrollment_type := Some enrollmentType, e_source := ''veracross'',
       e_status := ''active''\<rparr>"

definition insert_enrollment :: "uuid \<Rightarrow> timestamp \<Rightarrow> uuid \<Rightarrow> int \<Rightarrow> string \<Rightarrow> asp_enrollment" where
  "insert_enrollment new_id now classUuid studentPersonId enrollmentType =
     \<lparr>e_id = new_id, e_class_id = classUuid, e_student_person_id = studentPersonId,
      e_status = ''active'', e_source = ''veracross'', e_enrollment_type = Some enrollmentType,
      e_fee_paid = False, e_effective_start = None, e_effective_end = None, e_notes = None,
      e_removal_reason = None, e_created_by = None, e_created_at = now, e_updated_by = None,
      e_updated_at = now\<rparr>"

definition has_key :: "uuid \<Rightarrow> int \<Rightarrow> asp_enrollment \<Rightarrow> bool" where
  "has_key classUuid studentPersonId e =
     (e_class_id e = classUuid \<and> e_student_person_id e = studentPersonId)"

text \<open>\<^verbatim>\<open>enrollmentStatus?.toLowerCase() === 'registered' ? 'registered' : 'enrolled'\<close>.\<close>

definition enrollmentType_of :: "string option \<Rightarrow> string" where
  "enrollmentType_of enrollmentStatus =
     (case enrollmentStatus of
        None \<Rightarrow> ''enrolled''
      | Some s \<Rightarrow> if toLowerCase s = ''registered'' then ''registered'' else ''enrolled'')"

text \<open>
  Step 5, one iteration of the loop over \<^verbatim>\<open>enrollmentRows\<close> (lines 196-226). The key
  \<^verbatim>\<open>`${classUuid}:${studentPersonId}`\<close> is kept as the pair it is built from.
\<close>

definition sync_enrollment :: "faults \<Rightarrow> timestamp \<Rightarrow> bq_enrollment \<Rightarrow> sync_state \<Rightarrow> sync_state" where
  "sync_enrollment flt now row st =
     (let vcClassId = q_vc_class_id row;
          studentPersonId = q_student_person_id row;
          enrollmentStatus = q_enrollment_status row
      in case classIdMap st vcClassId of
           None \<Rightarrow> st\<lparr>errors := errors st @ [''No class found for vc_class_id: '' @ vcClassId]\<rparr>
         | Some classUuid \<Rightarrow>
             (let st1 = st\<lparr>bqEnrollmentKeys :=
                             insert (classUuid, studentPersonId) (bqEnrollmentKeys st)\<rparr>;
                  enrollmentType = enrollmentType_of enrollmentStatus
              in case flt (writes st) of
                   Some msg \<Rightarrow>
                     st1\<lparr>writes := Suc (writes st),
                         errors := errors st @
                           [''Failed to upsert enrollment '' @ vcClassId @ ''/'' @
                            (if studentPersonId < 0 then ''-'' else '''') @
                            toString_nat (nat \<bar>studentPersonId\<bar>) @ '': '' @ msg]\<rparr>
                 | None \<Rightarrow>
                     (if \<exists>e \<in> set (s_enrollments st). has_key classUuid studentPersonId e
                      then st1\<lparr>writes := Suc (writes st),
                               s_enrollments :=
                                 map (\<lambda>e. if has_key classUuid studentPersonId e
                                           then merge_enrollment classUuid studentPersonId enrollmentType e
                                           else e) (s_enrollments st),
                               enrollmentsUpserted := Suc (enrollmentsUpserted st)\<rparr>
                      else st1\<lparr>writes := Suc (writes st),
                               s_enrollments := s_enrollments st @
                                 [insert_enrollment (s_next_id st) now classUuid studentPersonId
                                    enrollmentType],
                               s_next_id := Suc (s_next_id st),
                               enrollmentsUpserted := Suc (enrollmentsUpserted st)\<rparr>)))"

text \<open>
  Step 6 (lines 229-249): the rows selected with \<^verbatim>\<open>source = 'veracross'\<close> and
  \<^verbatim>\<open>status = 'active'\<close>, and one iteration of the loop over them.
\<close>

definition existingEnrollments :: "asp_enrollment list \<Rightarrow> (uuid \<times> uuid \<times> int) list" where
  "existingEnrollments es =
     map (\<lambda>e. (e_id e, e_class_id e, e_student_person_id e))
       (filter (\<lambda>e. e_source e = ''veracross'' \<and> e_status e = ''active'') es)"

definition deactivate_row :: "asp_enrollment \<Rightarrow> asp_enrollment" where
  "deactivate_row e = e\<lparr>e_status := ''inactive'', e_removal_reason := Some ''Removed from Veracross''\<rparr>"

definition deactivate_enrollment :: "uuid \<times> uuid \<times> int \<Rightarrow> sync_state \<Rightarrow> sync_state" where
  "deactivate_enrollment enrollment st =
     (case enrollment of (eid, key) \<Rightarrow>
        if key \<notin> bqEnrollmentKeys st
        then st\<lparr>s_enrollments := map (\<lambda>e. if e_id e = eid then deactivate_row e else e)
                                     (s_enrollments st),
                enrollmentsDeactivated := Suc (enrollmentsDeactivated st)\<rparr>
        else st)"

text \<open>Steps 3 to 6 in sequence, from the state a store gives.\<close>

definition sync_classes :: "faults \<Rightarrow> timestamp \<Rightarrow> bq_class list \<Rightarrow> store \<Rightarrow> sync_state" where
  "sync_classes flt now classRows S =
     fold deactivate_class (existingClasses (asp_classes S))
       (fold (sync_class flt now) classRows (initial_state S))"

definition sync_enrollments :: "faults \<Rightarrow> timestamp \<Rightarrow> bq_enrollment list \<Rightarrow> sync_state \<Rightarrow> sync_state" where
  "sync_enrollments flt now enrollmentRows st =
     (let st3 = fold (sync_enrollment flt now) enrollmentRows st
      in fold deactivate_enrollment (existingEnrollments (s_enrollments st3)) st3)"

definition run_sync ::
  "faults \<Rightarrow> timestamp \<Rightarrow> bq_class list \<Rightarrow> bq_enrollment list \<Rightarrow> store \<Rightarrow> sync_state" where
  "run_sync flt now classRows enrollmentRows S =
     sync_enrollments flt now enrollmentRows (sync_classes flt now classRows S)"

text \<open>
  \<^verbatim>\<open>POST\<close>: the feed is \<^verbatim>\<open>None\<close> when a BigQuery query throws, which the handler answers
  with status 500 (lines 292-298) before any write. Otherwise the pass runs, the last sync
  time and the audit entry are written (steps 7 and 8) and the summary is returned.
\<close>

record sync_summary =
  success :: bool
  summary_counts :: sync_counts
  total_classes_in_bq :: nat
  total_enrollments_in_bq :: nat
  summary_errors :: "string list option"
  synced_at :: timestamp

datatype sync_response = Synced sync_summary | Sync_failed nat string

definition counts_of :: "sync_state \<Rightarrow> nat \<Rightarrow> sync_counts" where
  "counts_of st elapsed =
     \<lparr>classes_inserted = classesInserted st, classes_updated = classesUpdated st,
      classes_deactivated = classesDeactivated st,
      enrollments_upserted = enrollmentsUpserted st,
      enrollments_deactivated = enrollmentsDeactivated st,
      error_count = length (errors st), duration_ms = elapsed\<rparr>"

definition store_after :: "sync_state \<Rightarrow> timestamp \<Rightarrow> nat \<Rightarrow> store \<Rightarrow> store" where
  "store_after st now elapsed S =
     \<lparr>asp_classes = s_classes st, asp_enrollments = s_enrollments st,
      system_last_vc_sync = Some now,
      asp_audit_log = asp_audit_log S @
        [\<lparr>a_action = ''sync'', a_entity_type = ''system'', a_new_value = counts_of st elapsed\<rparr>],
      next_id = s_next_id st\<rparr>"

definition POST ::
  "faults \<Rightarrow> timestamp \<Rightarrow> nat \<Rightarrow> (bq_class list \<times> bq_enrollment list) option \<Rightarrow> store
     \<Rightarrow> store \<times> sync_response" where
  "POST flt now elapsed feed S =
     (case feed of
        None \<Rightarrow> (S, Sync_failed 500 ''Failed to sync ASP data'')
      | Some (classRows, enrollmentRows) \<Rightarrow>
          (let st = run_sync flt now classRows enrollmentRows S
           in (store_after st now elapsed S,
               Synced \<lparr>success = True, summary_counts = counts_of st elapsed,
                       total_classes_in_bq = length classRows,
                       total_enrollments_in_bq = length enrollmentRows,
                       summary_errors = (if errors st = [] then None else Some (errors st)),
                       synced_at = now\<rparr>)))"

subsection \<open>Sorting as the runtime does\<close>

text \<open>
  \<^verbatim>\<open>Array.prototype.sort(compare)\<close> is stable, and for a consistent comparator its result
  is the one stable sorted arrangement; insertion computes it. The comparator of the
  sources is \<^verbatim>\<open>String.prototype.localeCompare\<close>, a function of the runtime and its
  locale: it is a parameter \<open>cmp\<close> of everything that sorts.
\<close>

fun insert_by :: "('a \<Rightarrow> 'a \<Rightarrow> int) \<Rightarrow> 'a \<Rightarrow> 'a list \<Rightarrow> 'a list" where
  "insert_by compare x [] = [x]"
| "insert_by compare x (y # ys) =
     (if compare x y \<le> 0 then x # y # ys else y # insert_by compare x ys)"

definition js_sort :: "('a \<Rightarrow> 'a \<Rightarrow> int) \<Rightarrow> 'a list \<Rightarrow> 'a list" where
  "js_sort compare xs = foldr (insert_by compare) xs []"

text \<open>A comparator that is total and transitive, as a collation is.\<close>

definition consistent :: "(string \<Rightarrow> string \<Rightarrow> int) \<Rightarrow> bool" where
  "consistent cmp \<longleftrightarrow>
     (\<forall>a b. cmp a b \<le> 0 \<or> cmp b a \<le> 0) \<and> (\<forall>a b c. cmp a b \<le> 0 \<and> cmp b c \<le> 0 \<longrightarrow> cmp a c \<le> 0)"

text \<open>
  Modelled from the spec: \<^verbatim>\<open>localeCompare\<close> is not code of the repository; the specification
  reads it as a "case-insensitive lexical compare", which is the comparison of the
  lower-cased strings character by character, a proper prefix first.
\<close>

fun compare_codes :: "nat list \<Rightarrow> nat list \<Rightarrow> int" where
  "compare_codes [] [] = 0"
| "compare_codes [] (y # ys) = -1"
| "compare_codes (x # xs) [] = 1"
| "compare_codes (x # xs) (y # ys) =
     (if x < y then -1 else if y < x then 1 else compare_codes xs ys)"

definition case_insensitive_compare :: "string \<Rightarrow> string \<Rightarrow> int" where
  "case_insensitive_compare a b =
     compare_codes (map of_char (toLowerCase a)) (map of_char (toLowerCase b))"

subsection \<open>Students, attendance and the rosters\<close>

text \<open>
  The tables the roster code reads besides classes and enrollments: \<^verbatim>\<open>students\<close> (interface
  \<^verbatim>\<open>Student\<close>), \<^verbatim>\<open>master_attendance\<close>, \<^verbatim>\<open>attendance\<close> (read by the edge function and the
  earlier class page), \<^verbatim>\<open>asp_manual_absences\<close> and \<^verbatim>\<open>asp_users\<close>.
\<close>

record student =
  st_id :: int
  st_person_id :: int
  st_first_name :: string
  st_last_name :: string
  st_grade_level :: int

record master_attendance_row =
  ma_person_id :: int
  ma_attendance_date :: string
  ma_student_attendance_status :: int

record attendance_row =
  at_person_id :: int
  at_date :: string
  at_status :: string

record manual_absence =
  mab_class_id :: uuid
  mab_student_person_id :: int
  mab_absence_date :: string

record asp_user =
  u_email :: string
  u_name :: string
  u_is_active :: bool
  u_receives_daily_email :: bool

record tables =
  t_classes :: "asp_class list"
  t_enrollments :: "asp_enrollment list"
  t_students :: "student list"
  t_master_attendance :: "master_attendance_row list"
  t_attendance :: "attendance_row list"
  t_manual_absences :: "manual_absence list"
  t_users :: "asp_user list"

text \<open>The interface \<^verbatim>\<open>ClassRoster\<close> of the email route.\<close>

record roster_student =
  rs_name :: string
  rs_grade :: int
  rs_enrollmentType :: string
  rs_notes :: "string option"
  rs_isAbsent :: bool

record class_roster =
  cr_classId :: uuid
  cr_className :: string
  cr_dayOfWeek :: string
  cr_time :: string
  cr_students :: "roster_student list"

text \<open>The interface \<^verbatim>\<open>ClassRoster\<close> of the edge function, which has no class id and no day.\<close>

record edge_class_roster =
  ecr_className :: string
  ecr_time :: string
  ecr_students :: "roster_student list"

text \<open>\<^verbatim>\<open>new Map(students.map(s => [s.person_id, s]))\<close>: a later row replaces an earlier one.\<close>

definition studentMap_of :: "student list \<Rightarrow> (int \<rightharpoonup> student)" where
  "studentMap_of students = map_of (rev (map (\<lambda>s. (st_person_id s, s)) students))"

text \<open>
  One entry of \<^verbatim>\<open>classStudents\<close> (route.ts, lines 109-117; index.ts, lines 98-106), with the
  placeholder for a student the map does not hold.
\<close>

definition roster_entry :: "(int \<rightharpoonup> student) \<Rightarrow> int set \<Rightarrow> asp_enrollment \<Rightarrow> roster_student" where
  "roster_entry studentMap absentStudents e =
     (let student = studentMap (e_student_person_id e) in
      \<lparr>rs_name = (case student of
                    Some s \<Rightarrow> st_last_name s @ '', '' @ st_first_name s
                  | None \<Rightarrow> ''Unknown Student''),
       rs_grade = (case student of
                     Some s \<Rightarrow> if st_grade_level s = 0 then 0 else st_grade_level s
                   | None \<Rightarrow> 0),
       rs_enrollmentType = (case e_enrollment_type e of
                              None \<Rightarrow> ''enrolled''
                            | Some t \<Rightarrow> if t = [] then ''enrolled'' else t),
       rs_notes = e_notes e,
       rs_isAbsent = (e_student_person_id e \<in> absentStudents)\<rparr>)"

text \<open>\<^verbatim>\<open>classStudents\<close>: the enrollments of the class, mapped and sorted by name.\<close>

definition classStudents ::
  "(string \<Rightarrow> string \<Rightarrow> int) \<Rightarrow> (int \<rightharpoonup> student) \<Rightarrow> int set \<Rightarrow> asp_enrollment list \<Rightarrow> uuid
     \<Rightarrow> roster_student list" where
  "classStudents cmp studentMap absentStudents enrollments cls_id =
     js_sort (\<lambda>a b. cmp (rs_name a) (rs_name b))
       (map (roster_entry studentMap absentStudents)
          (filter (\<lambda>e. e_class_id e = cls_id) enrollments))"

text \<open>
  The display name (route.ts, lines 121-124): \<^verbatim>\<open>split(':')\<close>, the third part without its
  first parenthesised group, or the last part; trimmed.
\<close>

fun split_colon :: "string \<Rightarrow> string list" where
  "split_colon [] = [[]]"
| "split_colon (c # cs) =
     (case split_colon cs of
        [] \<Rightarrow> [[c]]
      | p # ps \<Rightarrow> if c = CHR '':'' then [] # p # ps else (c # p) # ps)"

text \<open>\<^verbatim>\<open>.replace(/\([^)]*\)/, '')\<close>: the text from the first opening parenthesis to the next
  closing one goes, if both are there.\<close>

definition remove_parens :: "string \<Rightarrow> string" where
  "remove_parens s =
     (let before = takeWhile (\<lambda>c. c \<noteq> CHR ''('') s;
          from_open = dropWhile (\<lambda>c. c \<noteq> CHR ''('') s;
          after_close = dropWhile (\<lambda>c. c \<noteq> CHR '')'') from_open
      in if from_open = [] \<or> after_close = [] then s else before @ drop 1 after_close)"

definition displayName :: "string \<Rightarrow> string" where
  "displayName class_name =
     (let nameParts = split_colon class_name in
      if 2 < length nameParts then trim (remove_parens (nameParts ! 2))
      else trim (last nameParts))"

text \<open>
  \<^verbatim>\<open>formatTime\<close> (route.ts, lines 176-187). \<^verbatim>\<open>format\<close> reads the first two parts of
  \<^verbatim>\<open>t.split(':')\<close> as numbers; on a string without a colon \<^verbatim>\<open>m.toString()\<close> throws, which is
  the result \<^verbatim>\<open>None\<close>. The time columns hold digits (\<^verbatim>\<open>HH:MM:SS\<close>).
\<close>

definition format_12h :: "string \<Rightarrow> string option" where
  "format_12h t =
     (case split_colon t of
        hs # ms # _ \<Rightarrow>
          (let h = Number_digits hs; m = Number_digits ms;
               period = (if 12 \<le> h then ''PM'' else ''AM'');
               hour = (if 12 < h then h - 12 else if h = 0 then 12 else h)
           in Some (toString_nat hour @ '':'' @ padStart2 (toString_nat m) @ '' '' @ period))
      | _ \<Rightarrow> None)"

definition formatTime :: "string option \<Rightarrow> string option \<Rightarrow> string option" where
  "formatTime start end_time =
     (case (start, end_time) of
        (Some s, Some e) \<Rightarrow>
          if s = [] \<or> e = [] then Some ''TBD''
          else (case (format_12h s, format_12h e) of
                  (Some a, Some b) \<Rightarrow> Some (a @ '' - '' @ b)
                | _ \<Rightarrow> None)
      | _ \<Rightarrow> Some ''TBD'')"

subsection \<open>The daily roster email\<close>

text \<open>
  What a run of a handler does to the world, in order: the selects it sends to the store
  and the call of the email service, with the recipients, the subject and the body. The
  body is \<^verbatim>\<open>buildEmailHtml(targetDay, rosters, isTest)\<close> in the route and
  \<^verbatim>\<open>buildEmailHtml(today, rosters, todayDate)\<close> in the edge function; its rendering is
  presentation, and the body is kept as its three arguments.
\<close>

datatype effect =
    Select_recipients
  | Select_classes string
  | Select_enrollments "uuid list"
  | Select_students "int list"
  | Select_attendance "int list" string
  | Send_email "string list" string string "class_roster list" bool
  | Send_edge_email "string list" string string "edge_class_roster list" string

text \<open>
  The responses: a message, an error with its status, and the two summaries of a run that
  sent the email: \<^verbatim>\<open>sentTo\<close> (the addresses), \<^verbatim>\<open>classCount\<close> and \<^verbatim>\<open>totalStudents\<close> in the
  route, \<^verbatim>\<open>sentTo\<close> (the number of recipients) and \<^verbatim>\<open>classCount\<close> in the edge function.
\<close>

datatype email_response =
    Message string
  | Failure nat string
  | Sent "string list" nat nat
  | Edge_sent nat nat

text \<open>
  What the handler reads from outside the store: \<^verbatim>\<open>new Date().getDay()\<close>, the date as
  \<^verbatim>\<open>toISOString().split('T')[0]\<close> and as \<^verbatim>\<open>toLocaleDateString()\<close>, the query parameter
  \<^verbatim>\<open>test\<close>, the API key, the error of the recipients select if it fails, and the answer of
  the email service (\<^verbatim>\<open>None\<close> when \<^verbatim>\<open>response.ok\<close>).
\<close>

record request_env =
  getDay :: nat
  iso_date :: string
  locale_date :: string
  isTest :: bool
  RESEND_API_KEY :: "string option"
  recipientsError :: "string option"
  resend_error :: "string option"

definition days :: "string list" where
  "days = [''Sunday'', ''Monday'', ''Tuesday'', ''Wednesday'', ''Thursday'', ''Friday'', ''Saturday'']"

text \<open>
  \<^verbatim>\<open>.order('start_time')\<close>: ascending, rows without a time last; the times are compared as
  the zero-padded strings the store prints.
\<close>

definition compare_start_time :: "asp_class \<Rightarrow> asp_class \<Rightarrow> int" where
  "compare_start_time a b =
     (case (c_start_time a, c_start_time b) of
        (None, None) \<Rightarrow> 0
      | (None, Some _) \<Rightarrow> 1
      | (Some _, None) \<Rightarrow> -1
      | (Some s, Some t) \<Rightarrow> compare_codes (map of_char s) (map of_char t))"

definition select_classes :: "tables \<Rightarrow> string \<Rightarrow> asp_class list" where
  "select_classes db targetDay =
     js_sort compare_start_time
       (filter (\<lambda>c. c_day_of_week c = targetDay \<and> c_is_active c) (t_classes db))"

definition select_enrollments :: "tables \<Rightarrow> uuid list \<Rightarrow> asp_enrollment list" where
  "select_enrollments db classIds =
     filter (\<lambda>e. e_class_id e \<in> set classIds \<and> e_status e = ''active'') (t_enrollments db)"

definition select_students :: "tables \<Rightarrow> int list \<Rightarrow> student list" where
  "select_students db studentIds = filter (\<lambda>s. st_person_id s \<in> set studentIds) (t_students db)"

text \<open>\<^verbatim>\<open>[...new Set(xs)]\<close>: the first occurrence of each value, in order.\<close>

definition unique :: "'a list \<Rightarrow> 'a list" where
  "unique xs = rev (remdups (rev xs))"

text \<open>The absent codes of the attendance feed (route.ts, lines 93-101).\<close>

definition absent_codes :: "int list" where
  "absent_codes = [29, 30, 72]"

definition select_master_attendance :: "tables \<Rightarrow> int list \<Rightarrow> string \<Rightarrow> master_attendance_row list" where
  "select_master_attendance db studentIds today =
     filter (\<lambda>a. ma_person_id a \<in> set studentIds \<and> ma_attendance_date a = today
                 \<and> ma_student_attendance_status a \<in> set absent_codes)
       (t_master_attendance db)"

definition select_attendance :: "tables \<Rightarrow> int list \<Rightarrow> string \<Rightarrow> attendance_row list" where
  "select_attendance db studentIds today =
     filter (\<lambda>a. at_person_id a \<in> set studentIds \<and> at_date a = today) (t_attendance db)"

text \<open>
  The rosters of the route (lines 78-133): one per class, from the active enrollments of
  these classes, their students and the attendance feed of the day. \<^verbatim>\<open>None\<close> is the
  exception of \<^verbatim>\<open>formatTime\<close>, which the handler catches and answers with status 500 and
  the message of the exception; the message is the runtime's text for a \<^verbatim>\<open>TypeError\<close>
  and is kept as that name.
\<close>

definition roster_of ::
  "(string \<Rightarrow> string \<Rightarrow> int) \<Rightarrow> (int \<rightharpoonup> student) \<Rightarrow> int set \<Rightarrow> asp_enrollment list \<Rightarrow> asp_class
     \<Rightarrow> class_roster option" where
  "roster_of cmp studentMap absentStudents enrollments cls =
     (case formatTime (c_start_time cls) (c_end_time cls) of
        None \<Rightarrow> None
      | Some time \<Rightarrow>
          Some \<lparr>cr_classId = c_id cls, cr_className = displayName (c_class_name cls),
                cr_dayOfWeek = c_day_of_week cls, cr_time = time,
                cr_students = classStudents cmp studentMap absentStudents enrollments (c_id cls)\<rparr>)"

fun all_or_none :: "'a option list \<Rightarrow> 'a list option" where
  "all_or_none [] = Some []"
| "all_or_none (None # xs) = None"
| "all_or_none (Some x # xs) = (case all_or_none xs of None \<Rightarrow> None | Some ys \<Rightarrow> Some (x # ys))"

definition email_rosters ::
  "(string \<Rightarrow> string \<Rightarrow> int) \<Rightarrow> tables \<Rightarrow> string \<Rightarrow> asp_class list \<Rightarrow> class_roster list option" where
  "email_rosters cmp db today classes =
     (let classIds = map c_id classes;
          enrollments = select_enrollments db classIds;
          studentIds = unique (map e_student_person_id enrollments);
          students = select_students db studentIds;
          attendanceData = select_master_attendance db studentIds today;
          absentStudents = set (map ma_person_id attendanceData);
          studentMap = studentMap_of students
      in all_or_none (map (roster_of cmp studentMap absentStudents enrollments) classes))"

text \<open>
  \<^verbatim>\<open>POST\<close> of \<^verbatim>\<open>send-daily-email/route.ts\<close>: the response and the effects in order. The
  source declares \<^verbatim>\<open>today\<close> twice in one block (lines 42 and 95); the second, the date, is
  \<open>iso_date\<close> here, as \<^verbatim>\<open>todayDate\<close> is in the edge function.
\<close>

definition send_daily_email ::
  "(string \<Rightarrow> string \<Rightarrow> int) \<Rightarrow> request_env \<Rightarrow> tables \<Rightarrow> email_response \<times> effect list" where
  "send_daily_email cmp env db =
     (let today = days ! getDay env in
      if today \<in> set [''Friday'', ''Saturday'', ''Sunday''] \<and> \<not> isTest env
      then (Message ''No ASP classes today'', [])
      else
      (let targetDay = (if isTest env then ''Monday'' else today);
           recipients = filter (\<lambda>u. u_is_active u \<and> u_receives_daily_email u) (t_users db)
       in case recipientsError env of
            Some msg \<Rightarrow> (Failure 500 (''Database error: '' @ msg), [Select_recipients])
          | None \<Rightarrow>
       if recipients = []
       then (Failure 400 ''No email recipients configured'', [Select_recipients])
       else
       (let classes = select_classes db targetDay in
        if classes = []
        then (Message (''No classes on '' @ targetDay), [Select_recipients, Select_classes targetDay])
        else
        (let classIds = map c_id classes;
             studentIds = unique (map e_student_person_id (select_enrollments db classIds));
             reads = [Select_recipients, Select_classes targetDay, Select_enrollments classIds,
                      Select_students studentIds, Select_attendance studentIds (iso_date env)]
         in case email_rosters cmp db (iso_date env) classes of
              None \<Rightarrow> (Failure 500 ''TypeError'', reads)
            | Some rosters \<Rightarrow>
         (case RESEND_API_KEY env of
            None \<Rightarrow> (Failure 500 ''Resend API key not configured'', reads)
          | Some key \<Rightarrow>
         if key = [] then (Failure 500 ''Resend API key not configured'', reads)
         else
         (let recipientEmails = map u_email recipients;
              subject = (if isTest env then ''[TEST] '' else '''') @ ''ASP Roster for '' @ targetDay
                          @ '', '' @ locale_date env;
              sent = reads @ [Send_email recipientEmails subject targetDay rosters (isTest env)]
          in case resend_error env of
               Some err \<Rightarrow> (Failure 500 (''Email send failed: '' @ err), sent)
             | None \<Rightarrow>
                 (Sent recipientEmails (length rosters)
                    (sum_list (map (\<lambda>r. length (cr_students r)) rosters)), sent)))))))"

text \<open>
  The edge function \<^verbatim>\<open>send-asp-daily-email/index.ts\<close>: no test flag, the day of week in
  Eastern time (\<open>getDay\<close> and \<open>iso_date\<close> are then those of \<^verbatim>\<open>estTime\<close>), the \<^verbatim>\<open>attendance\<close>
  table with status \<^verbatim>\<open>Absent\<close>, no check of the recipients select, rosters without class
  id and day, and a summary of two counts.
\<close>

definition edge_roster_of ::
  "(string \<Rightarrow> string \<Rightarrow> int) \<Rightarrow> (int \<rightharpoonup> student) \<Rightarrow> int set \<Rightarrow> asp_enrollment list \<Rightarrow> asp_class
     \<Rightarrow> edge_class_roster option" where
  "edge_roster_of cmp studentMap absentStudents enrollments cls =
     (case formatTime (c_start_time cls) (c_end_time cls) of
        None \<Rightarrow> None
      | Some time \<Rightarrow>
          Some \<lparr>ecr_className = displayName (c_class_name cls), ecr_time = time,
                ecr_students = classStudents cmp studentMap absentStudents enrollments (c_id cls)\<rparr>)"

definition edge_rosters ::
  "(string \<Rightarrow> string \<Rightarrow> int) \<Rightarrow> tables \<Rightarrow> string \<Rightarrow> asp_class list
     \<Rightarrow> edge_class_roster list option" where
  "edge_rosters cmp db todayDate classes =
     (let classIds = map c_id classes;
          enrollments = select_enrollments db classIds;
          studentIds = unique (map e_student_person_id enrollments);
          students = select_students db studentIds;
          attendance = select_attendance db studentIds todayDate;
          absentStudents = set (map at_person_id (filter (\<lambda>a. at_status a = ''Absent'') attendance));
          studentMap = studentMap_of students
      in all_or_none (map (edge_roster_of cmp studentMap absentStudents enrollments) classes))"

definition edge_send_daily_email ::
  "(string \<Rightarrow> string \<Rightarrow> int) \<Rightarrow> request_env \<Rightarrow> tables \<Rightarrow> email_response \<times> effect list" where
  "edge_send_daily_email cmp env db =
     (let today = days ! getDay env in
      if today \<in> set [''Friday'', ''Saturday'', ''Sunday'']
      then (Message ''No ASP classes today'', [])
      else
      (let recipients = filter (\<lambda>u. u_is_active u \<and> u_receives_daily_email u) (t_users db) in
       if recipients = []
       then (Failure 400 ''No email recipients configured'', [Select_recipients])
       else
       (let classes = select_classes db today in
        if classes = []
        then (Message (''No classes on '' @ today), [Select_recipients, Select_classes today])
        else
        (let classIds = map c_id classes;
             studentIds = unique (map e_student_person_id (select_enrollments db classIds));
             todayDate = iso_date env;
             reads = [Select_recipients, Select_classes today, Select_enrollments classIds,
                      Select_students studentIds, Select_attendance studentIds todayDate]
         in case edge_rosters cmp db todayDate classes of
              None \<Rightarrow> (Failure 500 ''TypeError'', reads)
            | Some rosters \<Rightarrow>
         (case RESEND_API_KEY env of
            None \<Rightarrow> (Failure 500 ''Resend API key not configured'', reads)
          | Some key \<Rightarrow>
         if key = [] then (Failure 500 ''Resend API key not configured'', reads)
         else
         (let subject = ''ASP Roster for '' @ today @ '', '' @ locale_date env;
              sent = reads @ [Send_edge_email (map u_email recipients) subject today rosters todayDate]
          in case resend_error env of
               Some err \<Rightarrow> (Failure 500 (''Email send failed: '' @ err), sent)
             | None \<Rightarrow> (Edge_sent (length recipients) (length rosters), sent)))))))"

subsection \<open>The class detail page\<close>

text \<open>
  \<^verbatim>\<open>loadEnrollments\<close> of the class page in its later revision (second file of
  \<^verbatim>\<open>src/app/layout.tsx\<close>, lines 131-212): the active enrollments of the class in order of
  creation, each with its student or the placeholder, sorted by last name; and the two
  sets of absent students, from the attendance feed and from the manual marks of the class
  and day. The rows render \<^verbatim>\<open>isAbsent = isVcAbsent || isManualAbsent\<close> (lines 657-659).
  The selects are taken to succeed (on an error the page logs it and keeps the state it
  had); the sets are empty before the first load.
\<close>

record enrollment_with_student =
  ews_enrollment :: asp_enrollment
  ews_student :: student

definition enrich :: "student list \<Rightarrow> asp_enrollment \<Rightarrow> enrollment_with_student" where
  "enrich studentData enrollment =
     \<lparr>ews_enrollment = enrollment,
      ews_student =
        (case find (\<lambda>s. st_person_id s = e_student_person_id enrollment) studentData of
           Some s \<Rightarrow> s
         | None \<Rightarrow> \<lparr>st_id = 0, st_person_id = e_student_person_id enrollment,
                     st_first_name = ''Unknown'', st_last_name = ''Student'',
                     st_grade_level = 0\<rparr>)\<rparr>"

text \<open>\<^verbatim>\<open>.order('created_at')\<close> on the enrollments of the class.\<close>

definition compare_created_at :: "asp_enrollment \<Rightarrow> asp_enrollment \<Rightarrow> int" where
  "compare_created_at a b =
     (if e_created_at a < e_created_at b then -1 else if e_created_at b < e_created_at a then 1 else 0)"

record page_state =
  ps_enrollments :: "enrollment_with_student list"
  ps_vcAbsentStudents :: "int set"
  ps_manualAbsentStudents :: "int set"

definition loadEnrollments ::
  "(string \<Rightarrow> string \<Rightarrow> int) \<Rightarrow> tables \<Rightarrow> uuid \<Rightarrow> string \<Rightarrow> page_state" where
  "loadEnrollments cmp db classId today =
     (let enrollmentData =
            js_sort compare_created_at
              (filter (\<lambda>e. e_class_id e = classId \<and> e_status e = ''active'') (t_enrollments db))
      in if enrollmentData = []
         then \<lparr>ps_enrollments = [], ps_vcAbsentStudents = {}, ps_manualAbsentStudents = {}\<rparr>
         else
         (let studentIds = map e_student_person_id enrollmentData;
              studentData = select_students db studentIds;
              attendanceData = select_master_attendance db studentIds today;
              vcAbsentSet = set (map ma_person_id attendanceData);
              manualAbsenceData =
                filter (\<lambda>a. mab_class_id a = classId \<and> mab_absence_date a = today)
                  (t_manual_absences db);
              manualAbsentSet = set (map mab_student_person_id manualAbsenceData);
              enrichedEnrollments = map (enrich studentData) enrollmentData
          in \<lparr>ps_enrollments =
                js_sort (\<lambda>a b. cmp (st_last_name (ews_student a)) (st_last_name (ews_student b)))
                  enrichedEnrollments,
              ps_vcAbsentStudents = vcAbsentSet,
              ps_manualAbsentStudents = manualAbsentSet\<rparr>))"

definition page_isAbsent :: "page_state \<Rightarrow> enrollment_with_student \<Rightarrow> bool" where
  "page_isAbsent ps enrollment =
     (let isVcAbsent = e_student_person_id (ews_enrollment enrollment) \<in> ps_vcAbsentStudents ps;
          isManualAbsent = e_student_person_id (ews_enrollment enrollment) \<in> ps_manualAbsentStudents ps
      in isVcAbsent \<or> isManualAbsent)"

text \<open>
  The earlier revision of the page (\<^verbatim>\<open>src/app/class/[id]/page.tsx\<close>, lines 92-159) differs
  in the absences only: it reads the table \<^verbatim>\<open>attendance\<close> and keeps one set, the students
  with status \<^verbatim>\<open>Absent\<close> on the day; a row is absent when its student is in this set
  (line 428).
\<close>

record earlier_page_state =
  eps_enrollments :: "enrollment_with_student list"
  eps_absentStudents :: "int set"

definition loadEnrollments_earlier ::
  "(string \<Rightarrow> string \<Rightarrow> int) \<Rightarrow> tables \<Rightarrow> uuid \<Rightarrow> string \<Rightarrow> earlier_page_state" where
  "loadEnrollments_earlier cmp db classId today =
     (let enrollmentData =
            js_sort compare_created_at
              (filter (\<lambda>e. e_class_id e = classId \<and> e_status e = ''active'') (t_enrollments db))
      in if enrollmentData = []
         then \<lparr>eps_enrollments = [], eps_absentStudents = {}\<rparr>
         else
         (let studentIds = map e_student_person_id enrollmentData;
              studentData = select_students db studentIds;
              attendanceData = select_attendance db studentIds today;
              absentSet = set (map at_person_id (filter (\<lambda>a. at_status a = ''Absent'') attendanceData));
              enrichedEnrollments = map (enrich studentData) enrollmentData
          in \<lparr>eps_enrollments =
                js_sort (\<lambda>a b. cmp (st_last_name (ews_student a)) (st_last_name (ews_student b)))
                  enrichedEnrollments,
              eps_absentStudents = absentSet\<rparr>))"

definition earlier_isAbsent :: "earlier_page_state \<Rightarrow> enrollment_with_student \<Rightarrow> bool" where
  "earlier_isAbsent ps enrollment =
     (e_student_person_id (ews_enrollment enrollment) \<in> eps_absentStudents ps)"

subsection \<open>Notions of the verification\<close>

definition idmap :: "asp_class list \<Rightarrow> (string \<rightharpoonup> uuid)" where
  "idmap cs = initial_classIdMap (existingClasses cs)"

definition update_at :: "uuid \<Rightarrow> class_data \<Rightarrow> asp_class list \<Rightarrow> asp_class list" where
  "update_at i d cs = map (\<lambda>c. if c_id c = i then update_class d c else c) cs"

definition phaseA_inv :: "asp_class list \<Rightarrow> sync_state \<Rightarrow> bool" where
  "phaseA_inv cs0 st \<longleftrightarrow>
     distinct (map c_id (s_classes st)) \<and> (\<forall>c\<in>set (s_classes st). c_id c < s_next_id st)
     \<and> classIdMap st = idmap (s_classes st)
     \<and> prefix (existingClasses cs0) (existingClasses (s_classes st))
     \<and> (\<forall>c\<in>set (s_classes st). (c_id c, c_vc_class_id c) \<in> set (existingClasses cs0)
            \<or> c_vc_class_id c \<in> bqClassIds st)"

definition wf_store :: "store \<Rightarrow> bool" where
  "wf_store S \<longleftrightarrow>
     distinct (map c_id (asp_classes S)) \<and> (\<forall>c\<in>set (asp_classes S). c_id c < next_id S)
     \<and> distinct (map e_id (asp_enrollments S)) \<and> (\<forall>e\<in>set (asp_enrollments S). e_id e < next_id S)"

text \<open>A stored row whose external id the loop has not seen is as it was.\<close>

definition untouched :: "asp_class list \<Rightarrow> sync_state \<Rightarrow> bool" where
  "untouched cs0 st \<longleftrightarrow>
     (\<forall>j<length cs0. c_vc_class_id (cs0 ! j) \<notin> bqClassIds st \<longrightarrow> s_classes st ! j = cs0 ! j)"

text \<open>
  Without faults, a row that some feed row resolves to carries the data of the last such
  feed row.
\<close>

definition last_row_for :: "(string \<rightharpoonup> uuid) \<Rightarrow> bq_class list \<Rightarrow> uuid \<Rightarrow> bq_class option" where
  "last_row_for m rows i = find (\<lambda>r. m (r_vc_class_id r) = Some i) (rev rows)"

definition settled :: "bq_class list \<Rightarrow> sync_state \<Rightarrow> bool" where
  "settled rows st \<longleftrightarrow>
     (\<forall>c\<in>set (s_classes st). \<forall>r. last_row_for (classIdMap st) rows (c_id c) = Some r
          \<longrightarrow> update_class (classData r) c = c)"

definition deactivate_at :: "uuid set \<Rightarrow> asp_class list \<Rightarrow> asp_class list" where
  "deactivate_at D cs = map (\<lambda>c. if c_id c \<in> D then c\<lparr>c_is_active := False\<rparr> else c) cs"

definition gone_ids :: "(uuid \<times> string) list \<Rightarrow> string set \<Rightarrow> uuid set" where
  "gone_ids existing seen = {i. \<exists>v. (i, v) \<in> set existing \<and> v \<notin> seen}"

definition key_of :: "asp_enrollment \<Rightarrow> uuid \<times> int" where
  "key_of e = (e_class_id e, e_student_person_id e)"

definition merge_at :: "uuid \<Rightarrow> int \<Rightarrow> string \<Rightarrow> asp_enrollment list \<Rightarrow> asp_enrollment list" where
  "merge_at u s t es = map (\<lambda>e. if has_key u s e then merge_enrollment u s t e else e) es"

definition row_key :: "(string \<rightharpoonup> uuid) \<Rightarrow> bq_enrollment \<Rightarrow> (uuid \<times> int) option" where
  "row_key m r = (case m (q_vc_class_id r) of None \<Rightarrow> None
                  | Some u \<Rightarrow> Some (u, q_student_person_id r))"

definition phaseC_inv :: "asp_enrollment list \<Rightarrow> sync_state \<Rightarrow> bool" where
  "phaseC_inv es0 st \<longleftrightarrow>
     distinct (map e_id (s_enrollments st)) \<and> (\<forall>e\<in>set (s_enrollments st). e_id e < s_next_id st)
     \<and> prefix (map e_id es0) (map e_id (s_enrollments st))"

text \<open>A stored enrollment whose key the loop has not seen is as it was.\<close>

definition e_untouched :: "asp_enrollment list \<Rightarrow> sync_state \<Rightarrow> bool" where
  "e_untouched es0 st \<longleftrightarrow>
     (\<forall>j<length es0. key_of (es0 ! j) \<notin> bqEnrollmentKeys st \<longrightarrow> s_enrollments st ! j = es0 ! j)"

text \<open>
  Without faults, an enrollment whose key some feed row resolves to carries the data of
  the last such feed row, and every key of the feed is held by a row.
\<close>

definition last_enrollment_for ::
  "(string \<rightharpoonup> uuid) \<Rightarrow> bq_enrollment list \<Rightarrow> uuid \<times> int \<Rightarrow> bq_enrollment option" where
  "last_enrollment_for m rows k = find (\<lambda>r. row_key m r = Some k) (rev rows)"

definition merged_with :: "bq_enrollment \<Rightarrow> asp_enrollment \<Rightarrow> asp_enrollment" where
  "merged_with r e =
     merge_enrollment (e_class_id e) (e_student_person_id e) (enrollmentType_of (q_enrollment_status r)) e"

definition e_settled :: "bq_enrollment list \<Rightarrow> sync_state \<Rightarrow> bool" where
  "e_settled rows st \<longleftrightarrow>
     (\<forall>e\<in>set (s_enrollments st). \<forall>r. last_enrollment_for (classIdMap st) rows (key_of e) = Some r
          \<longrightarrow> merged_with r e = e)"

definition covered :: "sync_state \<Rightarrow> bool" where
  "covered st \<longleftrightarrow> bqEnrollmentKeys st \<subseteq> key_of ` set (s_enrollments st)"

definition deactivate_rows :: "uuid set \<Rightarrow> asp_enrollment list \<Rightarrow> asp_enrollment list" where
  "deactivate_rows D es = map (\<lambda>e. if e_id e \<in> D then deactivate_row e else e) es"

definition stale_ids :: "(uuid \<times> uuid \<times> int) list \<Rightarrow> (uuid \<times> int) set \<Rightarrow> uuid set" where
  "stale_ids selected keys = {i. \<exists>k. (i, k) \<in> set selected \<and> k \<notin> keys}"

definition blank_class :: asp_class where
  "blank_class =
     \<lparr>c_id = 0, c_vc_class_id = [], c_class_name = [], c_instructor = None, c_room = None,
      c_day_of_week = ''Monday'', c_start_time = None, c_end_time = None, c_semester = None,
      c_school_year = None, c_min_grade = None, c_max_grade = None, c_capacity = None,
      c_is_active = True, c_last_vc_sync = None, c_created_at = 0\<rparr>"

definition blank_enrollment :: asp_enrollment where
  "blank_enrollment =
     \<lparr>e_id = 0, e_class_id = 0, e_student_person_id = 0, e_status = ''active'',
      e_source = ''veracross'', e_enrollment_type = None, e_fee_paid = False,
      e_effective_start = None, e_effective_end = None, e_notes = None,
      e_removal_reason = None, e_created_by = None, e_created_at = 0, e_updated_by = None,
      e_updated_at = 0\<rparr>"

text \<open>
  The scenario of the specification: the store holds the classes C1 and C3, the feed the
  classes C1 and C2. Student 7 is enrolled in C1 by the sync and stays in the feed, student
  8 is enrolled in C3 by the sync and is no longer in the feed, student 9 was added to C1
  by hand; the feed also names student 5 in a class X99 that it does not list.
\<close>

definition scenario_store :: store where
  "scenario_store =
     \<lparr>asp_classes =
        [blank_class\<lparr>c_id := 1, c_vc_class_id := ''C1'', c_class_name := ''Art''\<rparr>,
         blank_class\<lparr>c_id := 2, c_vc_class_id := ''C3'', c_class_name := ''Chess''\<rparr>],
      asp_enrollments =
        [blank_enrollment\<lparr>e_id := 3, e_class_id := 1, e_student_person_id := 7\<rparr>,
         blank_enrollment\<lparr>e_id := 4, e_class_id := 2, e_student_person_id := 8\<rparr>,
         blank_enrollment\<lparr>e_id := 5, e_class_id := 1, e_student_person_id := 9,
                          e_source := ''manual'', e_enrollment_type := Some ''trial''\<rparr>],
      system_last_vc_sync = None, asp_audit_log = [], next_id = 6\<rparr>"

definition scenario_classRows :: "bq_class list" where
  "scenario_classRows =
     [\<lparr>r_vc_class_id = ''C1'', r_program_name = ''Art ASP Semester 1'',
       r_meeting_times = Some ''Monday 3:45 PM - 5:00 PM'', r_instructor = Some ''Lee'',
       r_capacity = Some 12\<rparr>,
      \<lparr>r_vc_class_id = ''C2'', r_program_name = ''Band ASP Semester 1'',
       r_meeting_times = Some ''Tuesday 3:45 PM - 4:30 PM'', r_instructor = None,
       r_capacity = None\<rparr>]"

definition scenario_enrollmentRows :: "bq_enrollment list" where
  "scenario_enrollmentRows =
     [\<lparr>q_vc_class_id = ''C1'', q_student_person_id = 7, q_enrollment_status = Some ''Registered''\<rparr>,
      \<lparr>q_vc_class_id = ''X99'', q_student_person_id = 5, q_enrollment_status = None\<rparr>,
      \<lparr>q_vc_class_id = ''C2'', q_student_person_id = 9, q_enrollment_status = Some ''Enrolled''\<rparr>]"

definition no_class_found :: "bq_enrollment \<Rightarrow> string" where
  "no_class_found row = ''No class found for vc_class_id: '' @ q_vc_class_id row"

text \<open>
  The columns of a class that neither \<^verbatim>\<open>update(classData)\<close> nor the deactivation writes:
  a row with the written columns blanked. The external id is among the written columns.
\<close>

definition frame :: "asp_class \<Rightarrow> asp_class" where
  "frame c = c\<lparr>c_vc_class_id := [], c_class_name := [], c_day_of_week := [],
               c_start_time := None, c_end_time := None, c_instructor := None,
               c_capacity := None, c_is_active := False\<rparr>"

text \<open>The columns an insert of a class leaves empty, and the time of the insert.\<close>

definition fresh :: "timestamp \<Rightarrow> asp_class \<Rightarrow> bool" where
  "fresh now c \<longleftrightarrow>
     c_room c = None \<and> c_semester c = None \<and> c_school_year c = None \<and> c_min_grade c = None
     \<and> c_max_grade c = None \<and> c_last_vc_sync c = None \<and> c_created_at c = now"

text \<open>
  During step 3 the stored rows keep their places and their unwritten columns; a row with
  an id of the store is a stored row, and a row with a later id was inserted by this pass
  and is the one the map resolves its external id to.
\<close>

definition phaseA_rows :: "store \<Rightarrow> timestamp \<Rightarrow> sync_state \<Rightarrow> bool" where
  "phaseA_rows S now st \<longleftrightarrow>
     next_id S \<le> s_next_id st
     \<and> prefix (map frame (asp_classes S)) (map frame (s_classes st))
     \<and> (\<forall>c\<in>set (s_classes st).
          (c_id c < next_id S \<longrightarrow> (c_id c, c_vc_class_id c) \<in> set (existingClasses (asp_classes S)))
          \<and> (next_id S \<le> c_id c \<longrightarrow>
               fresh now c \<and> classIdMap st (c_vc_class_id c) = Some (c_id c)))"

text \<open>
  The store of the scenario with a stale row for C1: another name and day, inactive, and a
  room, which the feed does not carry.
\<close>

definition stale_store :: store where
  "stale_store =
     scenario_store\<lparr>asp_classes :=
       [blank_class\<lparr>c_id := 1, c_vc_class_id := ''C1'', c_class_name := ''Old name'',
                    c_room := Some ''Gym'', c_day_of_week := ''Friday'', c_is_active := False,
                    c_created_at := 7\<rparr>,
        blank_class\<lparr>c_id := 2, c_vc_class_id := ''C3'', c_class_name := ''Chess'',
                    c_instructor := Some ''Kim'', c_start_time := Some ''16:00:00''\<rparr>]\<rparr>"

text \<open>
  Two values of \<^verbatim>\<open>loadEnrollments\<close> by name: \<^verbatim>\<open>enrollmentData\<close>, the active enrollments of
  the class as fetched, in order of creation, and \<^verbatim>\<open>enrichedEnrollments\<close>, these rows with
  their students, before the sort.
\<close>

definition class_enrollments_by_creation :: "tables \<Rightarrow> uuid \<Rightarrow> asp_enrollment list" where
  "class_enrollments_by_creation db classId =
     js_sort compare_created_at
       (filter (\<lambda>e. e_class_id e = classId \<and> e_status e = ''active'') (t_enrollments db))"

definition enriched_rows :: "tables \<Rightarrow> uuid \<Rightarrow> enrollment_with_student list" where
  "enriched_rows db classId =
     map (enrich (select_students db
                    (map e_student_person_id (class_enrollments_by_creation db classId))))
       (class_enrollments_by_creation db classId)"

text \<open>
  A class on Monday with four active enrollments, in order of creation: Zed Smith, Ann
  Smith, Bob adams and a student 999 that the students table does not hold. On the day,
  the attendance feed marks Ann Smith absent (code 29), and staff marked Bob adams absent
  by hand.
\<close>

definition roster_tables :: tables where
  "roster_tables =
     \<lparr>t_classes =
        [blank_class\<lparr>c_id := 1, c_vc_class_id := ''C1'', c_class_name := ''Art'',
                     c_start_time := Some ''15:45:00'', c_end_time := Some ''17:00:00''\<rparr>],
      t_enrollments =
        [blank_enrollment\<lparr>e_id := 10, e_class_id := 1, e_student_person_id := 103, e_created_at := 1\<rparr>,
         blank_enrollment\<lparr>e_id := 11, e_class_id := 1, e_student_person_id := 101, e_created_at := 2\<rparr>,
         blank_enrollment\<lparr>e_id := 12, e_class_id := 1, e_student_person_id := 102, e_created_at := 3\<rparr>,
         blank_enrollment\<lparr>e_id := 13, e_class_id := 1, e_student_person_id := 999, e_created_at := 4\<rparr>],
      t_students =
        [\<lparr>st_id = 1, st_person_id = 101, st_first_name = ''Ann'', st_last_name = ''Smith'',
          st_grade_level = 3\<rparr>,
         \<lparr>st_id = 2, st_person_id = 102, st_first_name = ''Bob'', st_last_name = ''adams'',
          st_grade_level = 4\<rparr>,
         \<lparr>st_id = 3, st_person_id = 103, st_first_name = ''Zed'', st_last_name = ''Smith'',
          st_grade_level = 5\<rparr>],
      t_master_attendance =
        [\<lparr>ma_person_id = 101, ma_attendance_date = ''2026-01-05'', ma_student_attendance_status = 29\<rparr>],
      t_attendance = [],
      t_manual_absences =
        [\<lparr>mab_class_id = 1, mab_student_person_id = 102, mab_absence_date = ''2026-01-05''\<rparr>],
      t_users =
        [\<lparr>u_email = ''office@example.org'', u_name = ''Office'', u_is_active = True,
          u_receives_daily_email = True\<rparr>]\<rparr>"

text \<open>A request without the test flag on Monday, 5 January 2026, with the service configured.\<close>

definition monday_env :: request_env where
  "monday_env =
     \<lparr>getDay = 1, iso_date = ''2026-01-05'', locale_date = ''1/5/2026'', isTest = False,
      RESEND_API_KEY = Some ''key'', recipientsError = None, resend_error = None\<rparr>"

section \<open>Verification\<close>

subsection \<open>Facts about the parsers\<close>

lemma not_digit_simps [simp]:
  "\<not> is_digit (CHR '':'')" "\<not> is_digit (CHR '' '')" "\<not> is_digit (CHR ''-'')"
  "\<not> is_digit (CHR ''A'')" "\<not> is_digit (CHR ''P'')"
  by (simp_all add: is_digit_def)

lemma space_simps [simp]:
  "is_space (CHR '' '')" "\<not> is_space (CHR ''-'')" "\<not> is_space (CHR ''A'')"
  "\<not> is_space (CHR ''P'')" "\<not> is_space (CHR '':'')"
  by (simp_all add: is_space_def)

lemma digit_not_space [simp]: "is_digit c \<Longrightarrow> \<not> is_space c"
  by (auto simp: is_digit_def is_space_def)

lemma digit_not_colon [simp]: "is_digit c \<Longrightarrow> c \<noteq> CHR '':''"
  by (auto simp: is_digit_def)

lemma starts_with_Cons [simp]:
  "starts_with (p # ps) (c # cs) = (p = c \<and> starts_with ps cs)"
  by (auto simp: starts_with_def)

lemma starts_with_Nil [simp]: "starts_with [] s" "starts_with (p # ps) [] = False"
  by (auto simp: starts_with_def)

lemma match_hhmm_no_digit: "\<not> is_digit c \<Longrightarrow> match_hhmm (c # cs) = None"
  by (cases "(c # cs)" rule: match_hhmm.cases) auto

lemma time_at_no_digit: "\<not> is_digit c \<Longrightarrow> time_at (c # cs) = None"
  by (simp add: time_at_def match_hhmm_no_digit)

lemma timeMatch_skip: "\<forall>c\<in>set p. \<not> is_digit c \<Longrightarrow> timeMatch (p @ s) = timeMatch s"
  by (induction p) (simp_all add: time_at_no_digit)

lemma weekdays_cases:
  assumes "d \<in> set weekdays"
  obtains "d = ''Monday''" | "d = ''Tuesday''" | "d = ''Wednesday''" | "d = ''Thursday''"
    | "d = ''Friday''"
proof -
  from assms have "d = ''Monday'' \<or> d = ''Tuesday'' \<or> d = ''Wednesday'' \<or> d = ''Thursday''
      \<or> d = ''Friday''"
    unfolding weekdays_def by (simp only: set_simps insert_iff empty_iff simp_thms)
  then show thesis
    using that by (elim disjE) assumption+
qed

lemma periods_cases:
  assumes "p \<in> set periods"
  obtains "p = ''AM''" | "p = ''PM''"
proof -
  from assms have "p = ''AM'' \<or> p = ''PM''"
    unfolding periods_def by (simp only: set_simps insert_iff empty_iff simp_thms)
  then show thesis
    using that by (elim disjE) assumption+
qed

lemma dayMatch_weekday: "d \<in> set weekdays \<Longrightarrow> dayMatch (d @ r) = Some d"
  by (erule weekdays_cases) (simp_all add: dayMatch_def weekdays_def)

lemma no_digit_names:
  "\<forall>c\<in>set ''Monday''. \<not> is_digit c" "\<forall>c\<in>set ''Tuesday''. \<not> is_digit c"
  "\<forall>c\<in>set ''Wednesday''. \<not> is_digit c" "\<forall>c\<in>set ''Thursday''. \<not> is_digit c"
  "\<forall>c\<in>set ''Friday''. \<not> is_digit c"
  by (simp_all add: is_digit_def)

lemma weekday_no_digit: "d \<in> set weekdays \<Longrightarrow> \<forall>c\<in>set d. \<not> is_digit c"
  by (erule weekdays_cases; hypsubst; rule no_digit_names)

lemma weekday_nonempty: "d \<in> set weekdays \<Longrightarrow> d \<noteq> []"
  by (erule weekdays_cases) simp_all

lemma match_period_mid: "p \<in> set periods \<Longrightarrow> match_period (CHR '' '' # p @ r) = Some (p, r)"
  by (erule periods_cases) (simp_all add: match_period_def)

lemma match_period_end: "p \<in> set periods \<Longrightarrow> match_period (CHR '' '' # p) = Some (p, [])"
  using match_period_mid[of p "[]"] by simp

lemma time_at_ok:
  assumes "is_digit a" "is_digit c" "is_digit e" "is_digit a'" "is_digit c'" "is_digit e'"
    and "p1 \<in> set periods" "p2 \<in> set periods"
  shows "time_at (a # CHR '':'' # c # e # CHR '' '' # p1 @ CHR '' '' # CHR ''-'' # CHR '' '' #
                  a' # CHR '':'' # c' # e' # CHR '' '' # p2)
         = Some ([a, CHR '':'', c, e], p1, [a', CHR '':'', c', e'], p2)"
  using assms by (simp add: time_at_def match_period_mid match_period_end)

lemma route_accepts_nf:
  assumes d: "d \<in> set weekdays"
    and dig: "is_digit a" "is_digit c" "is_digit e" "is_digit a'" "is_digit c'" "is_digit e'"
    and p: "p1 \<in> set periods" "p2 \<in> set periods"
  shows "parseMeetingTimes (Some ((d @ '' '') @ a # CHR '':'' # c # e # CHR '' '' # p1 @ CHR '' '' # CHR ''-'' # CHR '' '' #
                  a' # CHR '':'' # c' # e' # CHR '' '' # p2))
     = \<lparr>m_day_of_week = d, m_start_time = Some (convertTo24Hour [a, CHR '':'', c, e] p1),
         m_end_time = Some (convertTo24Hour [a', CHR '':'', c', e'] p2)\<rparr>"
proof -
  let ?T = "a # CHR '':'' # c # e # CHR '' '' # p1 @ CHR '' '' # CHR ''-'' # CHR '' '' #
                  a' # CHR '':'' # c' # e' # CHR '' '' # p2"
  have nd: "\<forall>x\<in>set (d @ '' ''). \<not> is_digit x"
    using weekday_no_digit[OF d] by simp
  have "timeMatch ((d @ '' '') @ ?T) = timeMatch ?T"
    using nd by (rule timeMatch_skip)
  also have "\<dots> = Some ([a, CHR '':'', c, e], p1, [a', CHR '':'', c', e'], p2)"
    using time_at_ok[OF dig p] by simp
  finally have tm: "timeMatch ((d @ '' '') @ ?T) = Some ([a, CHR '':'', c, e], p1, [a', CHR '':'', c', e'], p2)" .
  have dm: "dayMatch ((d @ '' '') @ ?T) = Some d"
    using dayMatch_weekday[OF d, of "'' '' @ ?T"] by simp
  have ne: "(d @ '' '') @ ?T \<noteq> []" by simp
  show ?thesis
    unfolding parseMeetingTimes_def using ne by (simp only: tm dm option.case prod.case if_False)
qed

lemma route_unparsed: "dayMatch s = None \<Longrightarrow> parseMeetingTimes (Some s) = defaults"
  by (simp add: parseMeetingTimes_def)

lemma route_no_range:
  assumes "dayMatch s = Some d" "timeMatch s = None"
  shows "parseMeetingTimes (Some s)
     = \<lparr>m_day_of_week = d, m_start_time = Some ''15:45:00'', m_end_time = Some ''17:00:00''\<rparr>"
proof -
  from assms(1) have "s \<noteq> []"
    by (auto simp: dayMatch_def weekdays_def)
  with assms show ?thesis
    by (simp add: parseMeetingTimes_def defaults_def)
qed

lemma route_null: "parseMeetingTimes None = defaults"
  by (simp add: parseMeetingTimes_def)

lemma takeWhile_digits: "\<forall>c\<in>set h. is_digit c \<Longrightarrow> \<not> is_digit x \<Longrightarrow> takeWhile is_digit (h @ x # r) = h"
  by (induction h) auto

lemma dropWhile_digits: "\<forall>c\<in>set h. is_digit c \<Longrightarrow> \<not> is_digit x \<Longrightarrow> dropWhile is_digit (h @ x # r) = x # r"
  by (induction h) auto

lemma takeWhile_all_digits: "\<forall>c\<in>set h. is_digit c \<Longrightarrow> takeWhile is_digit h = h"
  by (induction h) auto

lemma dropWhile_all_digits: "\<forall>c\<in>set h. is_digit c \<Longrightarrow> dropWhile is_digit h = []"
  by (induction h) auto

lemma match_hm_mid:
  assumes "h \<noteq> []" "m \<noteq> []" "\<forall>c\<in>set h. is_digit c" "\<forall>c\<in>set m. is_digit c" "\<not> is_digit x"
  shows "match_hm (h @ CHR '':'' # m @ x # r) = Some (h @ CHR '':'' # m, x # r)"
  using assms by (simp add: match_hm_def takeWhile_digits dropWhile_digits Let_def)

lemma match_hm_end:
  assumes "h \<noteq> []" "m \<noteq> []" "\<forall>c\<in>set h. is_digit c" "\<forall>c\<in>set m. is_digit c"
  shows "match_hm (h @ CHR '':'' # m) = Some (h @ CHR '':'' # m, [])"
  using assms
  by (simp add: match_hm_def takeWhile_digits dropWhile_digits takeWhile_all_digits
      dropWhile_all_digits Let_def)

lemma dropWhile_space_digits:
  "h \<noteq> [] \<Longrightarrow> \<forall>c\<in>set h. is_digit c \<Longrightarrow> dropWhile is_space (h @ r) = h @ r"
  by (cases h) auto

lemma script_accepts_nf:
  assumes d: "d \<in> set ''MTWRF''"
    and ne: "h1 \<noteq> []" "m1 \<noteq> []" "h2 \<noteq> []" "m2 \<noteq> []"
    and dig: "\<forall>c\<in>set h1. is_digit c" "\<forall>c\<in>set m1. is_digit c" "\<forall>c\<in>set h2. is_digit c" "\<forall>c\<in>set m2. is_digit c"
  shows "script_parseMeetingTimes (Some (d # CHR '':'' # h1 @ CHR '':'' # m1 @ CHR '' '' # CHR ''-'' # CHR '' '' # h2 @ CHR '':'' # m2))
     = \<lparr>m_day_of_week = day_of_code d, m_start_time = Some ((h1 @ CHR '':'' # m1) @ '':00''),
         m_end_time = Some ((h2 @ CHR '':'' # m2) @ '':00'')\<rparr>"
proof -
  have 1: "match_hm (h1 @ CHR '':'' # m1 @ CHR '' '' # CHR ''-'' # CHR '' '' # h2 @ CHR '':'' # m2)
        = Some (h1 @ CHR '':'' # m1, CHR '' '' # CHR ''-'' # CHR '' '' # h2 @ CHR '':'' # m2)"
    using ne dig by (intro match_hm_mid) simp_all
  have 2: "dropWhile is_space (h2 @ CHR '':'' # m2) = h2 @ CHR '':'' # m2"
    using ne dig by (intro dropWhile_space_digits)
  have 3: "match_hm (h2 @ CHR '':'' # m2) = Some (h2 @ CHR '':'' # m2, [])"
    using ne dig by (intro match_hm_end)
  have "script_match (d # CHR '':'' # h1 @ CHR '':'' # m1 @ CHR '' '' # CHR ''-'' # CHR '' '' # h2 @ CHR '':'' # m2)
      = Some (d, h1 @ CHR '':'' # m1, h2 @ CHR '':'' # m2)"
    unfolding script_match_def using d by (simp add: 1 2 3 del: set_simps)
  then show ?thesis
    by (simp add: script_parseMeetingTimes_def)
qed

lemma script_unparsed:
  "s = [] \<or> hd s \<notin> set ''MTWRF'' \<Longrightarrow>
   script_parseMeetingTimes (Some s) = \<lparr>m_day_of_week = ''Unknown'', m_start_time = None, m_end_time = None\<rparr>"
  by (cases s) (simp_all add: script_parseMeetingTimes_def script_match_def)

lemma script_null: "script_parseMeetingTimes None = \<lparr>m_day_of_week = ''Unknown'', m_start_time = None, m_end_time = None\<rparr>"
  by (simp add: script_parseMeetingTimes_def)


subsection \<open>Claim C7: the meeting-times parsers\<close>

lemma dayMatch_code_form: "k \<in> set ''MTWRF'' \<Longrightarrow> dayMatch (k # CHR '':'' # r) = None"
  by (auto simp: dayMatch_def weekdays_def)

lemma script_on_weekday:
  "d \<in> set weekdays \<Longrightarrow>
   script_parseMeetingTimes (Some (d @ r)) =
     \<lparr>m_day_of_week = day_of_code (hd d), m_start_time = None, m_end_time = None\<rparr>"
  by (erule weekdays_cases) (simp_all add: script_parseMeetingTimes_def script_match_def)

lemma match_hhmm_ok:
  assumes "h \<noteq> []" "length h \<le> 2" "length m = 2" "\<forall>x\<in>set h. is_digit x" "\<forall>x\<in>set m. is_digit x"
  shows "match_hhmm (h @ CHR '':'' # m @ r) = Some (h @ CHR '':'' # m, r)"
proof -
  from assms(3) obtain c e where m: "m = [c, e]"
    by (cases m; cases "tl m") auto
  from assms(1,2) consider a where "h = [a]" | a b where "h = [a, b]"
    by (cases h; cases "tl h") auto
  then show ?thesis
  proof cases
    case 1
    with m assms(4,5) show ?thesis by (cases r) simp_all
  next
    case 2
    with m assms(4,5) show ?thesis by simp
  qed
qed

lemma dropWhile_spaces: "\<forall>x\<in>set w. is_space x \<Longrightarrow> dropWhile is_space (w @ r) = dropWhile is_space r"
  by (induction w) simp_all

lemma period_head: "p \<in> set periods \<Longrightarrow> dropWhile is_space (p @ r) = p @ r"
  by (erule periods_cases) simp_all

lemma match_period_ok:
  assumes "\<forall>x\<in>set w. is_space x" "p \<in> set periods"
  shows "match_period (w @ p @ r) = Some (p, r)"
proof -
  have "dropWhile is_space (w @ p @ r) = p @ r"
    using assms by (simp add: dropWhile_spaces period_head)
  then show ?thesis
    using assms(2) by (auto simp: match_period_def elim!: periods_cases)
qed

lemma digits_head: "h \<noteq> [] \<Longrightarrow> \<forall>x\<in>set h. is_digit x \<Longrightarrow> dropWhile is_space (h @ r) = h @ r"
  by (cases h) auto

lemma time_at_range:
  assumes h: "h1 \<noteq> []" "length h1 \<le> 2" "h2 \<noteq> []" "length h2 \<le> 2"
    and m: "length m1 = 2" "length m2 = 2"
    and dig: "\<forall>x\<in>set h1. is_digit x" "\<forall>x\<in>set m1. is_digit x" "\<forall>x\<in>set h2. is_digit x"
      "\<forall>x\<in>set m2. is_digit x"
    and w: "\<forall>x\<in>set w1. is_space x" "\<forall>x\<in>set w2. is_space x" "\<forall>x\<in>set w3. is_space x"
      "\<forall>x\<in>set w4. is_space x"
    and p: "p1 \<in> set periods" "p2 \<in> set periods"
  shows "time_at (h1 @ CHR '':'' # m1 @ w1 @ p1 @ w2 @ CHR ''-'' # w3 @ h2 @ CHR '':'' # m2 @ w4 @ p2 @ rest)
         = Some (h1 @ CHR '':'' # m1, p1, h2 @ CHR '':'' # m2, p2)"
proof -
  let ?r4 = "w4 @ p2 @ rest"
  let ?r3 = "w3 @ h2 @ CHR '':'' # m2 @ ?r4"
  let ?r2 = "w2 @ CHR ''-'' # ?r3"
  let ?r1 = "w1 @ p1 @ ?r2"
  have 1: "match_hhmm (h1 @ CHR '':'' # m1 @ ?r1) = Some (h1 @ CHR '':'' # m1, ?r1)"
    using h(1,2) m(1) dig(1,2) by (rule match_hhmm_ok)
  have 2: "match_period ?r1 = Some (p1, ?r2)"
    using w(1) p(1) by (rule match_period_ok)
  have 3: "dropWhile is_space ?r2 = CHR ''-'' # ?r3"
    using w(2) by (simp add: dropWhile_spaces)
  have 4: "dropWhile is_space ?r3 = h2 @ CHR '':'' # m2 @ ?r4"
    using w(3) digits_head[OF h(3) dig(3), of "CHR '':'' # m2 @ ?r4"] by (simp add: dropWhile_spaces)
  have 5: "match_hhmm (h2 @ CHR '':'' # m2 @ ?r4) = Some (h2 @ CHR '':'' # m2, ?r4)"
    using h(3,4) m(2) dig(3,4) by (rule match_hhmm_ok)
  have 6: "match_period ?r4 = Some (p2, rest)"
    using w(4) p(2) by (rule match_period_ok)
  show ?thesis
    unfolding time_at_def by (simp only: 1 2 3 4 5 6 option.case prod.case list.case simp_thms if_False)
qed

lemma route_accepts_range:
  assumes d: "d \<in> set weekdays" and sep: "\<forall>x\<in>set sep. \<not> is_digit x"
    and h: "h1 \<noteq> []" "length h1 \<le> 2" "h2 \<noteq> []" "length h2 \<le> 2"
    and m: "length m1 = 2" "length m2 = 2"
    and dig: "\<forall>x\<in>set h1. is_digit x" "\<forall>x\<in>set m1. is_digit x" "\<forall>x\<in>set h2. is_digit x"
      "\<forall>x\<in>set m2. is_digit x"
    and w: "\<forall>x\<in>set w1. is_space x" "\<forall>x\<in>set w2. is_space x" "\<forall>x\<in>set w3. is_space x"
      "\<forall>x\<in>set w4. is_space x"
    and p: "p1 \<in> set periods" "p2 \<in> set periods"
  shows "parseMeetingTimes (Some ((d @ sep) @ h1 @ CHR '':'' # m1 @ w1 @ p1 @ w2 @ CHR ''-'' # w3 @ h2 @ CHR '':'' # m2 @ w4 @ p2 @ rest))
     = \<lparr>m_day_of_week = d, m_start_time = Some (convertTo24Hour (h1 @ CHR '':'' # m1) p1),
         m_end_time = Some (convertTo24Hour (h2 @ CHR '':'' # m2) p2)\<rparr>"
proof -
  let ?T = "h1 @ CHR '':'' # m1 @ w1 @ p1 @ w2 @ CHR ''-'' # w3 @ h2 @ CHR '':'' # m2 @ w4 @ p2 @ rest"
  have nd: "\<forall>x\<in>set (d @ sep). \<not> is_digit x"
    using weekday_no_digit[OF d] sep by auto
  have T: "time_at ?T = Some (h1 @ CHR '':'' # m1, p1, h2 @ CHR '':'' # m2, p2)"
    using h m dig w p by (rule time_at_range)
  obtain x xs where Tc: "?T = x # xs"
    using h(1) by (cases h1) auto
  have "timeMatch ((d @ sep) @ ?T) = timeMatch ?T"
    using nd by (rule timeMatch_skip)
  also have "\<dots> = Some (h1 @ CHR '':'' # m1, p1, h2 @ CHR '':'' # m2, p2)"
    using T unfolding Tc by simp
  finally have tm: "timeMatch ((d @ sep) @ ?T) = Some (h1 @ CHR '':'' # m1, p1, h2 @ CHR '':'' # m2, p2)" .
  have dm: "dayMatch ((d @ sep) @ ?T) = Some d"
    using dayMatch_weekday[OF d, of "sep @ ?T"] by simp
  have ne: "(d @ sep) @ ?T \<noteq> []"
    using weekday_nonempty[OF d] by simp
  show ?thesis
    unfolding parseMeetingTimes_def using ne by (simp only: tm dm option.case prod.case if_False)
qed


lemma space_not_digit: "is_space c \<Longrightarrow> \<not> is_digit c"
  using digit_not_space by blast

lemma dayMap_code: "dayMap k = Some day \<Longrightarrow> k \<in> set ''MTWRF'' \<and> day_of_code k = day"
  by (auto simp: dayMap_def day_of_code_def split: if_splits)

lemma script_accepts_range:
  assumes k: "dayMap k = Some day"
    and ne: "g1 \<noteq> []" "n1 \<noteq> []" "g2 \<noteq> []" "n2 \<noteq> []"
    and dig: "\<forall>c\<in>set g1. is_digit c" "\<forall>c\<in>set n1. is_digit c" "\<forall>c\<in>set g2. is_digit c"
      "\<forall>c\<in>set n2. is_digit c"
    and v: "\<forall>c\<in>set v1. is_space c" "\<forall>c\<in>set v2. is_space c"
  shows "script_parseMeetingTimes (Some (k # CHR '':'' # g1 @ CHR '':'' # n1 @ v1 @ CHR ''-'' # v2 @ g2 @ CHR '':'' # n2))
     = \<lparr>m_day_of_week = day, m_start_time = Some ((g1 @ CHR '':'' # n1) @ '':00''),
         m_end_time = Some ((g2 @ CHR '':'' # n2) @ '':00'')\<rparr>"
proof -
  let ?R = "v2 @ g2 @ CHR '':'' # n2"
  from k have kk: "k \<in> set ''MTWRF''" and day: "day_of_code k = day"
    using dayMap_code by blast+
  obtain x r' where xr: "v1 @ CHR ''-'' # ?R = x # r'" and nx: "\<not> is_digit x"
    using v(1) by (cases v1) (auto dest: space_not_digit)
  have "match_hm (g1 @ CHR '':'' # n1 @ x # r') = Some (g1 @ CHR '':'' # n1, x # r')"
    using ne(1,2) dig(1,2) nx by (rule match_hm_mid)
  then have 1: "match_hm (g1 @ CHR '':'' # n1 @ v1 @ CHR ''-'' # ?R)
        = Some (g1 @ CHR '':'' # n1, v1 @ CHR ''-'' # ?R)"
    unfolding xr .
  have 2: "dropWhile is_space (v1 @ CHR ''-'' # ?R) = CHR ''-'' # ?R"
    using v(1) by (simp add: dropWhile_spaces)
  have 3: "dropWhile is_space ?R = g2 @ CHR '':'' # n2"
    using v(2) digits_head[OF ne(3) dig(3), of "CHR '':'' # n2"] by (simp add: dropWhile_spaces)
  have 4: "match_hm (g2 @ CHR '':'' # n2) = Some (g2 @ CHR '':'' # n2, [])"
    using ne(3,4) dig(3,4) by (rule match_hm_end)
  have "script_match (k # CHR '':'' # g1 @ CHR '':'' # n1 @ v1 @ CHR ''-'' # ?R)
      = Some (k, g1 @ CHR '':'' # n1, g2 @ CHR '':'' # n2)"
    unfolding script_match_def using kk
    by (simp only: 1 2 3 4 list.case option.case prod.case simp_thms if_False if_True not_True_eq_False)
  then show ?thesis
    by (simp add: script_parseMeetingTimes_def day)
qed




text \<open>
  For a string that begins with a full weekday name the script's parser takes the day from
  the first letter. For Thursday this is the code of Tuesday, against the parser's own
  table, in which Thursday is R.
\<close>

lemma script_day_of_first_letter:
  "script_parseMeetingTimes (Some ''Thursday 3:45 - 5:00'')
     = \<lparr>m_day_of_week = ''Tuesday'', m_start_time = None, m_end_time = None\<rparr>"
  by code_simp

subsection \<open>Rows of classes\<close>

lemma update_class_id [simp]: "c_id (update_class d c) = c_id c"
  by (simp add: update_class_def)

lemma update_class_vc [simp]: "c_vc_class_id (update_class d c) = d_vc_class_id d"
  by (simp add: update_class_def)

lemma update_class_active [simp]: "c_is_active (update_class d c) = d_is_active d"
  by (simp add: update_class_def)

lemma update_class_absorb [simp]: "update_class d (update_class d' c) = update_class d c"
  by (simp add: update_class_def)

lemma update_insert_class [simp]: "update_class d (insert_class n now d) = insert_class n now d"
  by (simp add: update_class_def insert_class_def)

lemma insert_class_id [simp]: "c_id (insert_class n now d) = n"
  by (simp add: insert_class_def)

lemma insert_class_vc [simp]: "c_vc_class_id (insert_class n now d) = d_vc_class_id d"
  by (simp add: insert_class_def)

lemma classData_vc [simp]: "d_vc_class_id (classData row) = r_vc_class_id row"
  by (simp add: classData_def Let_def)

lemma classData_active [simp]: "d_is_active (classData row)"
  by (simp add: classData_def Let_def)

subsection \<open>The map from external ids to row ids\<close>

lemma idmap_Nil [simp]: "idmap [] = Map.empty"
  by (simp add: idmap_def initial_classIdMap_def existingClasses_def)

lemma idmap_snoc [simp]: "idmap (cs @ [c]) = (idmap cs)(c_vc_class_id c \<mapsto> c_id c)"
  by (simp add: idmap_def initial_classIdMap_def existingClasses_def)

lemma idmap_Some: "idmap cs v = Some i \<Longrightarrow> \<exists>c\<in>set cs. c_id c = i \<and> c_vc_class_id c = v"
  by (induction cs arbitrary: i rule: rev_induct) (auto split: if_splits)

lemma idmap_defined: "c \<in> set cs \<Longrightarrow> idmap cs (c_vc_class_id c) \<noteq> None"
  by (induction cs rule: rev_induct) auto

lemma idmap_cong: "existingClasses cs = existingClasses cs' \<Longrightarrow> idmap cs = idmap cs'"
  by (simp add: idmap_def)

lemma distinct_ids_eq:
  "distinct (map c_id cs) \<Longrightarrow> c \<in> set cs \<Longrightarrow> c' \<in> set cs \<Longrightarrow> c_id c = c_id c' \<Longrightarrow> c = c'"
  by (meson distinct_map inj_on_def)

lemma idmap_target_vc:
  assumes "distinct (map c_id cs)" "idmap cs v = Some i" "c \<in> set cs" "c_id c = i"
  shows "c_vc_class_id c = v"
proof -
  from idmap_Some[OF assms(2)] obtain c' where "c' \<in> set cs" "c_id c' = i" "c_vc_class_id c' = v"
    by blast
  with assms distinct_ids_eq[of cs c c'] show ?thesis by auto
qed

lemma update_at_pairs:
  assumes "distinct (map c_id cs)" "idmap cs v = Some i" "d_vc_class_id d = v"
  shows "existingClasses (update_at i d cs) = existingClasses cs"
  unfolding existingClasses_def update_at_def map_map
  by (rule map_cong[OF refl]) (use assms idmap_target_vc in auto)

lemma update_at_ids [simp]: "map c_id (update_at i d cs) = map c_id cs"
  by (simp add: update_at_def)

lemma set_update_at_ids: "c \<in> set (update_at i d cs) \<Longrightarrow> \<exists>c'\<in>set cs. c_id c' = c_id c"
  by (auto simp: update_at_def split: if_splits)

lemma pairs_mem: "c \<in> set cs \<Longrightarrow> (c_id c, c_vc_class_id c) \<in> set (existingClasses cs)"
  by (auto simp: existingClasses_def)

lemma pairs_memD: "(i, v) \<in> set (existingClasses cs) \<Longrightarrow> \<exists>c\<in>set cs. c_id c = i \<and> c_vc_class_id c = v"
  by (auto simp: existingClasses_def)

lemma existingClasses_snoc [simp]:
  "existingClasses (cs @ [c]) = existingClasses cs @ [(c_id c, c_vc_class_id c)]"
  by (simp add: existingClasses_def)

lemma existingClasses_ids [simp]: "map fst (existingClasses cs) = map c_id cs"
  by (simp add: existingClasses_def comp_def)

text \<open>The four outcomes of one iteration of step 3.\<close>

lemma sync_class_cases:
  obtains
    (update_failed) i msg where "classIdMap st (r_vc_class_id row) = Some i" "flt (writes st) = Some msg"
      "sync_class flt now row st =
         st\<lparr>bqClassIds := insert (r_vc_class_id row) (bqClassIds st), writes := Suc (writes st),
            errors := errors st @ [''Failed to update class '' @ r_vc_class_id row @ '': '' @ msg]\<rparr>"
  | (updated) i where "classIdMap st (r_vc_class_id row) = Some i" "flt (writes st) = None"
      "sync_class flt now row st =
         st\<lparr>bqClassIds := insert (r_vc_class_id row) (bqClassIds st), writes := Suc (writes st),
            s_classes := update_at i (classData row) (s_classes st),
            classesUpdated := Suc (classesUpdated st)\<rparr>"
  | (insert_failed) msg where "classIdMap st (r_vc_class_id row) = None" "flt (writes st) = Some msg"
      "sync_class flt now row st =
         st\<lparr>bqClassIds := insert (r_vc_class_id row) (bqClassIds st), writes := Suc (writes st),
            errors := errors st @ [''Failed to insert class '' @ r_vc_class_id row @ '': '' @ msg]\<rparr>"
  | (inserted) "classIdMap st (r_vc_class_id row) = None" "flt (writes st) = None"
      "sync_class flt now row st =
         st\<lparr>bqClassIds := insert (r_vc_class_id row) (bqClassIds st), writes := Suc (writes st),
            s_classes := s_classes st @ [insert_class (s_next_id st) now (classData row)],
            s_next_id := Suc (s_next_id st),
            classesInserted := Suc (classesInserted st),
            classIdMap := (classIdMap st)(r_vc_class_id row \<mapsto> s_next_id st)\<rparr>"
  by (cases "classIdMap st (r_vc_class_id row)"; cases "flt (writes st)")
     (simp_all add: sync_class_def Let_def update_at_def)

lemma phaseA_inv_step:
  assumes inv: "phaseA_inv cs0 st"
  shows "phaseA_inv cs0 (sync_class flt now row st)"
proof (cases rule: sync_class_cases[of st row flt now])
  case (update_failed i msg)
  with inv show ?thesis by (auto simp: phaseA_inv_def)
next
  case (insert_failed msg)
  with inv show ?thesis by (auto simp: phaseA_inv_def)
next
  case (updated i)
  let ?cs = "s_classes st" and ?d = "classData row"
  from inv have d: "distinct (map c_id ?cs)" and m: "idmap ?cs (r_vc_class_id row) = Some i"
    using updated(1) by (simp_all add: phaseA_inv_def)
  have pairs: "existingClasses (update_at i ?d ?cs) = existingClasses ?cs"
    using d m by (rule update_at_pairs) simp
  have mem: "\<exists>c'\<in>set ?cs. c_id c' = c_id c \<and> c_vc_class_id c' = c_vc_class_id c"
    if "c \<in> set (update_at i ?d ?cs)" for c
    using pairs_memD[of "c_id c" "c_vc_class_id c" ?cs] pairs_mem[OF that] pairs by simp
  have lt: "c_id c < s_next_id st" if "c \<in> set (update_at i ?d ?cs)" for c
    using mem[OF that] inv by (auto simp: phaseA_inv_def)
  have src: "(c_id c, c_vc_class_id c) \<in> set (existingClasses cs0)
      \<or> c_vc_class_id c \<in> insert (r_vc_class_id row) (bqClassIds st)"
    if "c \<in> set (update_at i ?d ?cs)" for c
    using mem[OF that] inv by (auto simp: phaseA_inv_def)
  show ?thesis
    unfolding phaseA_inv_def updated(3)
    using inv lt src by (simp add: phaseA_inv_def pairs idmap_cong[OF pairs])
next
  case inserted
  from inv show ?thesis
    unfolding phaseA_inv_def inserted(3)
    by (auto simp: phaseA_inv_def inserted(1) less_Suc_eq intro: prefix_order.trans)
qed

lemma phaseA_inv_fold:
  "phaseA_inv cs0 st \<Longrightarrow> phaseA_inv cs0 (fold (sync_class flt now) rows st)"
  by (induction rows arbitrary: st) (simp_all add: phaseA_inv_step)

lemma phaseA_inv_initial: "wf_store S \<Longrightarrow> phaseA_inv (asp_classes S) (initial_state S)"
  by (auto simp: phaseA_inv_def wf_store_def initial_state_def idmap_def pairs_mem)

subsection \<open>Step 3: what the loop over the class rows leaves alone, and what it establishes\<close>

lemma sync_class_frame [simp]:
  "s_enrollments (sync_class flt now row st) = s_enrollments st"
  "bqEnrollmentKeys (sync_class flt now row st) = bqEnrollmentKeys st"
  "bqClassIds (sync_class flt now row st) = insert (r_vc_class_id row) (bqClassIds st)"
  "enrollmentsUpserted (sync_class flt now row st) = enrollmentsUpserted st"
  "enrollmentsDeactivated (sync_class flt now row st) = enrollmentsDeactivated st"
  by (cases rule: sync_class_cases[of st row flt now]; simp)+

lemma sync_class_next_id: "s_next_id st \<le> s_next_id (sync_class flt now row st)"
  by (cases rule: sync_class_cases[of st row flt now]; simp)

lemma sync_class_map_mono:
  "classIdMap st v = Some i \<Longrightarrow> classIdMap (sync_class flt now row st) v = Some i"
  by (cases rule: sync_class_cases[of st row flt now]; auto)

lemma sync_class_length: "length (s_classes st) \<le> length (s_classes (sync_class flt now row st))"
  by (cases rule: sync_class_cases[of st row flt now]; simp add: update_at_def)

lemma fold_sync_class_frame [simp]:
  "s_enrollments (fold (sync_class flt now) rows st) = s_enrollments st"
  "bqEnrollmentKeys (fold (sync_class flt now) rows st) = bqEnrollmentKeys st"
  "bqClassIds (fold (sync_class flt now) rows st) = bqClassIds st \<union> set (map r_vc_class_id rows)"
  by (induction rows arbitrary: st) auto

lemma fold_sync_class_next_id: "s_next_id st \<le> s_next_id (fold (sync_class flt now) rows st)"
  by (induction rows arbitrary: st) (auto intro: order_trans[OF sync_class_next_id])

lemma fold_sync_class_map_mono:
  "classIdMap st v = Some i \<Longrightarrow> classIdMap (fold (sync_class flt now) rows st) v = Some i"
  by (induction rows arbitrary: st) (auto simp: sync_class_map_mono)

lemma sync_class_resolves:
  "classIdMap (sync_class no_faults now row st) (r_vc_class_id row) \<noteq> None"
  by (cases rule: sync_class_cases[of st row no_faults now]) (auto simp: no_faults_def)

lemma fold_sync_class_resolves:
  "row \<in> set rows \<Longrightarrow> classIdMap (fold (sync_class no_faults now) rows st) (r_vc_class_id row) \<noteq> None"
proof (induction rows arbitrary: st)
  case Nil
  then show ?case by simp
next
  case (Cons a rows)
  show ?case
  proof (cases "row \<in> set rows")
    case True
    then show ?thesis using Cons.IH by simp
  next
    case False
    with Cons.prems have "row = a" by simp
    moreover obtain i where "classIdMap (sync_class no_faults now a st) (r_vc_class_id a) = Some i"
      using sync_class_resolves[of now a st] by auto
    ultimately show ?thesis
      using fold_sync_class_map_mono[of "sync_class no_faults now a st" "r_vc_class_id a" i]
      by simp
  qed
qed

lemma prefix_pairs_length:
  "prefix (existingClasses cs0) (existingClasses cs) \<Longrightarrow> length cs0 \<le> length cs"
  using prefix_length_le[of "existingClasses cs0" "existingClasses cs"]
  by (simp add: existingClasses_def)

lemma untouched_step:
  assumes inv: "phaseA_inv cs0 st" and u: "untouched cs0 st"
  shows "untouched cs0 (sync_class flt now row st)"
proof (cases rule: sync_class_cases[of st row flt now])
  case (update_failed i msg)
  with u show ?thesis by (simp add: untouched_def)
next
  case (insert_failed msg)
  with u show ?thesis by (simp add: untouched_def)
next
  case (updated i)
  from inv have len: "length cs0 \<le> length (s_classes st)"
    by (simp add: phaseA_inv_def prefix_pairs_length)
  from inv have d: "distinct (map c_id (s_classes st))"
    and m: "idmap (s_classes st) (r_vc_class_id row) = Some i"
    using updated(1) by (simp_all add: phaseA_inv_def)
  show ?thesis
    unfolding untouched_def updated(3)
  proof (intro allI impI)
    fix j assume j: "j < length cs0"
      and nb: "c_vc_class_id (cs0 ! j) \<notin> bqClassIds
         (st\<lparr>bqClassIds := insert (r_vc_class_id row) (bqClassIds st), writes := Suc (writes st),
            s_classes := update_at i (classData row) (s_classes st),
            classesUpdated := Suc (classesUpdated st)\<rparr>)"
    then have ne: "c_vc_class_id (cs0 ! j) \<noteq> r_vc_class_id row"
      and same: "s_classes st ! j = cs0 ! j"
      using u by (simp_all add: untouched_def)
    have jl: "j < length (s_classes st)" using j len by simp
    then have mem: "s_classes st ! j \<in> set (s_classes st)" by simp
    have "c_id (s_classes st ! j) \<noteq> i"
      using idmap_target_vc[OF d m mem] ne same by auto
    then show "s_classes
         (st\<lparr>bqClassIds := insert (r_vc_class_id row) (bqClassIds st), writes := Suc (writes st),
            s_classes := update_at i (classData row) (s_classes st),
            classesUpdated := Suc (classesUpdated st)\<rparr>) ! j = cs0 ! j"
      using jl same by (simp add: update_at_def)
  qed
next
  case inserted
  from inv have len: "length cs0 \<le> length (s_classes st)"
    by (simp add: phaseA_inv_def prefix_pairs_length)
  with u show ?thesis
    unfolding untouched_def inserted(3) by (simp add: nth_append)
qed

lemma untouched_fold:
  "phaseA_inv cs0 st \<Longrightarrow> untouched cs0 st \<Longrightarrow> untouched cs0 (fold (sync_class flt now) rows st)"
  by (induction rows arbitrary: st) (simp_all add: untouched_step phaseA_inv_step)

lemma last_row_for_snoc:
  "last_row_for m (rows @ [r]) i =
     (if m (r_vc_class_id r) = Some i then Some r else last_row_for m rows i)"
  by (simp add: last_row_for_def)

lemma last_row_for_upd:
  assumes "m v = None" "i \<noteq> n"
  shows "last_row_for (m(v \<mapsto> n)) rows i = last_row_for m rows i"
  unfolding last_row_for_def
  by (rule find_cong[OF refl]) (use assms in auto)

lemma settled_step:
  assumes inv: "phaseA_inv cs0 st" and s: "settled rows st"
  shows "settled (rows @ [row]) (sync_class no_faults now row st)"
proof (cases rule: sync_class_cases[of st row no_faults now])
  case (update_failed i msg)
  then show ?thesis by (simp add: no_faults_def)
next
  case (insert_failed msg)
  then show ?thesis by (simp add: no_faults_def)
next
  case (updated i)
  have "update_class (classData r) c = c"
    if c: "c \<in> set (update_at i (classData row) (s_classes st))"
      and r: "last_row_for (classIdMap st) (rows @ [row]) (c_id c) = Some r" for c r
  proof -
    from c obtain c0 where c0: "c0 \<in> set (s_classes st)"
      and ceq: "c = (if c_id c0 = i then update_class (classData row) c0 else c0)"
      by (auto simp: update_at_def)
    show ?thesis
    proof (cases "c_id c0 = i")
      case True
      with ceq r updated(1) have "r = row" by (simp add: last_row_for_snoc)
      with True ceq show ?thesis by simp
    next
      case False
      with ceq r updated(1) have "last_row_for (classIdMap st) rows (c_id c0) = Some r"
        by (simp add: last_row_for_snoc)
      with s c0 False ceq show ?thesis by (simp add: settled_def)
    qed
  qed
  then show ?thesis
    unfolding settled_def updated(3) by simp
next
  case inserted
  let ?n = "s_next_id st" and ?v = "r_vc_class_id row"
  have old: "c_id c \<noteq> ?n" if "c \<in> set (s_classes st)" for c
    using inv that by (auto simp: phaseA_inv_def)
  have "update_class (classData r) c = c"
    if c: "c \<in> set (s_classes st @ [insert_class ?n now (classData row)])"
      and r: "last_row_for ((classIdMap st)(?v \<mapsto> ?n)) (rows @ [row]) (c_id c) = Some r" for c r
  proof (cases "c \<in> set (s_classes st)")
    case True
    then have ne: "c_id c \<noteq> ?n" by (rule old)
    with r have "last_row_for ((classIdMap st)(?v \<mapsto> ?n)) rows (c_id c) = Some r"
      by (simp add: last_row_for_snoc)
    then have "last_row_for (classIdMap st) rows (c_id c) = Some r"
      using last_row_for_upd[of "classIdMap st" ?v "c_id c" ?n rows] inserted(1) ne by simp
    with s True show ?thesis by (simp add: settled_def)
  next
    case False
    with c have ceq: "c = insert_class ?n now (classData row)" by simp
    with r have "r = row" by (simp add: last_row_for_snoc)
    with ceq show ?thesis by simp
  qed
  then show ?thesis
    unfolding settled_def inserted(3) by simp
qed

lemma settled_fold:
  "phaseA_inv cs0 st \<Longrightarrow> settled [] st \<Longrightarrow> settled rows (fold (sync_class no_faults now) rows st)"
proof (induction rows rule: rev_induct)
  case Nil
  then show ?case by simp
next
  case (snoc r rows)
  then show ?case
    using settled_step[OF phaseA_inv_fold[OF snoc.prems(1)], of rows no_faults now rows r now]
    by simp
qed

lemma settled_Nil [simp]: "settled [] st"
  by (simp add: settled_def last_row_for_def)

lemma find_SomeD: "find P xs = Some x \<Longrightarrow> P x \<and> x \<in> set xs"
  by (induction xs) (auto split: if_splits)

subsection \<open>Step 4: the deactivation of classes\<close>

lemma gone_ids_Nil [simp]: "gone_ids [] seen = {}"
  by (simp add: gone_ids_def)

lemma gone_ids_Cons:
  "gone_ids (p # ps) seen = (if snd p \<notin> seen then insert (fst p) (gone_ids ps seen) else gone_ids ps seen)"
  by (cases p) (auto simp: gone_ids_def)

lemma deactivate_at_empty [simp]: "deactivate_at {} cs = cs"
  by (simp add: deactivate_at_def)

lemma deactivate_at_insert:
  "deactivate_at D (map (\<lambda>c. if c_id c = i then c\<lparr>c_is_active := False\<rparr> else c) cs)
     = deactivate_at (insert i D) cs"
  by (simp add: deactivate_at_def)

lemma deactivate_class_frame [simp]:
  "s_enrollments (deactivate_class p st) = s_enrollments st"
  "bqEnrollmentKeys (deactivate_class p st) = bqEnrollmentKeys st"
  "bqClassIds (deactivate_class p st) = bqClassIds st"
  "classIdMap (deactivate_class p st) = classIdMap st"
  "s_next_id (deactivate_class p st) = s_next_id st"
  "errors (deactivate_class p st) = errors st"
  "writes (deactivate_class p st) = writes st"
  "enrollmentsUpserted (deactivate_class p st) = enrollmentsUpserted st"
  "enrollmentsDeactivated (deactivate_class p st) = enrollmentsDeactivated st"
  by (simp_all add: deactivate_class_def)

lemma fold_deactivate_class_frame [simp]:
  "s_enrollments (fold deactivate_class ps st) = s_enrollments st"
  "bqEnrollmentKeys (fold deactivate_class ps st) = bqEnrollmentKeys st"
  "bqClassIds (fold deactivate_class ps st) = bqClassIds st"
  "classIdMap (fold deactivate_class ps st) = classIdMap st"
  "s_next_id (fold deactivate_class ps st) = s_next_id st"
  "errors (fold deactivate_class ps st) = errors st"
  "writes (fold deactivate_class ps st) = writes st"
  by (induction ps arbitrary: st) simp_all

lemma fold_deactivate_class_classes:
  "s_classes (fold deactivate_class ps st) = deactivate_at (gone_ids ps (bqClassIds st)) (s_classes st)"
proof (induction ps arbitrary: st)
  case Nil
  then show ?case by simp
next
  case (Cons p ps)
  show ?case
  proof (cases "snd p \<in> bqClassIds st")
    case True
    then have "deactivate_class p st = st" by (simp add: deactivate_class_def)
    with True Cons.IH[of st] show ?thesis by (simp add: gone_ids_Cons)
  next
    case False
    then have "s_classes (deactivate_class p st)
        = map (\<lambda>c. if c_id c = fst p then c\<lparr>c_is_active := False\<rparr> else c) (s_classes st)"
      by (simp add: deactivate_class_def)
    with False Cons.IH[of "deactivate_class p st"] show ?thesis
      by (simp add: gone_ids_Cons deactivate_at_insert)
  qed
qed

lemma deactivate_at_pairs [simp]: "existingClasses (deactivate_at D cs) = existingClasses cs"
  by (simp add: existingClasses_def deactivate_at_def)

lemma deactivate_at_ids [simp]: "map c_id (deactivate_at D cs) = map c_id cs"
  by (simp add: deactivate_at_def)

lemma deactivate_at_length [simp]: "length (deactivate_at D cs) = length cs"
  by (simp add: deactivate_at_def)

lemma deactivate_at_nth:
  "j < length cs \<Longrightarrow> deactivate_at D cs ! j
     = (if c_id (cs ! j) \<in> D then (cs ! j)\<lparr>c_is_active := False\<rparr> else cs ! j)"
  by (simp add: deactivate_at_def)

lemma set_deactivate_at:
  "c \<in> set (deactivate_at D cs) \<Longrightarrow>
     \<exists>c0\<in>set cs. c = (if c_id c0 \<in> D then c0\<lparr>c_is_active := False\<rparr> else c0)"
  by (auto simp: deactivate_at_def)

subsection \<open>Steps 3 and 4 together\<close>

lemma sync_classes_eq:
  "s_classes (sync_classes flt now rows S)
     = deactivate_at (gone_ids (existingClasses (asp_classes S)) (set (map r_vc_class_id rows)))
         (s_classes (fold (sync_class flt now) rows (initial_state S)))"
  "classIdMap (sync_classes flt now rows S) = classIdMap (fold (sync_class flt now) rows (initial_state S))"
  "bqClassIds (sync_classes flt now rows S) = set (map r_vc_class_id rows)"
  "s_enrollments (sync_classes flt now rows S) = asp_enrollments S"
  "bqEnrollmentKeys (sync_classes flt now rows S) = {}"
  "s_next_id (sync_classes flt now rows S) = s_next_id (fold (sync_class flt now) rows (initial_state S))"
  by (simp_all add: sync_classes_def fold_deactivate_class_classes initial_state_def)

text \<open>The state after steps 3 and 4, from a well-formed store.\<close>

lemma sync_classes_inv:
  assumes wf: "wf_store S"
  shows "distinct (map c_id (s_classes (sync_classes flt now rows S)))"
    and "\<forall>c\<in>set (s_classes (sync_classes flt now rows S)). c_id c < s_next_id (sync_classes flt now rows S)"
    and "classIdMap (sync_classes flt now rows S) = idmap (s_classes (sync_classes flt now rows S))"
    and "prefix (existingClasses (asp_classes S)) (existingClasses (s_classes (sync_classes flt now rows S)))"
    and "next_id S \<le> s_next_id (sync_classes flt now rows S)"
proof -
  let ?A = "fold (sync_class flt now) rows (initial_state S)"
  have inv: "phaseA_inv (asp_classes S) ?A"
    using phaseA_inv_fold[OF phaseA_inv_initial[OF wf]] .
  show "distinct (map c_id (s_classes (sync_classes flt now rows S)))"
    using inv by (simp add: sync_classes_eq phaseA_inv_def)
  show "\<forall>c\<in>set (s_classes (sync_classes flt now rows S)). c_id c < s_next_id (sync_classes flt now rows S)"
  proof
    fix c assume "c \<in> set (s_classes (sync_classes flt now rows S))"
    then have "c_id c \<in> set (map c_id (s_classes ?A))"
      using deactivate_at_ids[of _ "s_classes ?A"] unfolding sync_classes_eq
      by (metis image_eqI set_map)
    then show "c_id c < s_next_id (sync_classes flt now rows S)"
      using inv by (auto simp: sync_classes_eq phaseA_inv_def)
  qed
  show "classIdMap (sync_classes flt now rows S) = idmap (s_classes (sync_classes flt now rows S))"
    using inv by (simp add: sync_classes_eq phaseA_inv_def idmap_def)
  show "prefix (existingClasses (asp_classes S)) (existingClasses (s_classes (sync_classes flt now rows S)))"
    using inv by (simp add: sync_classes_eq phaseA_inv_def)
  show "next_id S \<le> s_next_id (sync_classes flt now rows S)"
    using fold_sync_class_next_id[of "initial_state S" flt now rows]
    by (simp add: sync_classes_eq initial_state_def)
qed

text \<open>A row of the result whose external id is not in the feed is inactive.\<close>

lemma sync_classes_unseen_inactive:
  assumes wf: "wf_store S"
    and c: "c \<in> set (s_classes (sync_classes flt now rows S))"
    and v: "c_vc_class_id c \<notin> set (map r_vc_class_id rows)"
  shows "\<not> c_is_active c"
proof -
  let ?A = "fold (sync_class flt now) rows (initial_state S)"
  let ?D = "gone_ids (existingClasses (asp_classes S)) (set (map r_vc_class_id rows))"
  have inv: "phaseA_inv (asp_classes S) ?A"
    using phaseA_inv_fold[OF phaseA_inv_initial[OF wf]] .
  from c obtain c0 where c0: "c0 \<in> set (s_classes ?A)"
    and ceq: "c = (if c_id c0 \<in> ?D then c0\<lparr>c_is_active := False\<rparr> else c0)"
    unfolding sync_classes_eq using set_deactivate_at by blast
  from ceq have vc: "c_vc_class_id c = c_vc_class_id c0" by (simp split: if_splits)
  have bq: "bqClassIds ?A = set (map r_vc_class_id rows)"
    by (simp add: initial_state_def)
  from inv c0 have "(c_id c0, c_vc_class_id c0) \<in> set (existingClasses (asp_classes S))
      \<or> c_vc_class_id c0 \<in> bqClassIds ?A"
    unfolding phaseA_inv_def by blast
  with v vc bq have "(c_id c0, c_vc_class_id c0) \<in> set (existingClasses (asp_classes S))"
    by simp
  with v vc have "c_id c0 \<in> ?D"
    unfolding gone_ids_def by auto
  with ceq show ?thesis by simp
qed

text \<open>Without faults the rows the feed resolves to keep the feed's data through step 4.\<close>

lemma sync_classes_settled:
  assumes wf: "wf_store S"
  shows "settled rows (sync_classes no_faults now rows S)"
proof -
  let ?A = "fold (sync_class no_faults now) rows (initial_state S)"
  let ?D = "gone_ids (existingClasses (asp_classes S)) (set (map r_vc_class_id rows))"
  have inv: "phaseA_inv (asp_classes S) ?A"
    using phaseA_inv_fold[OF phaseA_inv_initial[OF wf]] .
  have sA: "settled rows ?A"
    using settled_fold[OF phaseA_inv_initial[OF wf]] by simp
  have d: "distinct (map c_id (s_classes ?A))" and m: "classIdMap ?A = idmap (s_classes ?A)"
    and pre: "prefix (existingClasses (asp_classes S)) (existingClasses (s_classes ?A))"
    using inv by (simp_all add: phaseA_inv_def)
  have "update_class (classData r) c = c"
    if c: "c \<in> set (deactivate_at ?D (s_classes ?A))"
      and r: "last_row_for (classIdMap ?A) rows (c_id c) = Some r" for c r
  proof -
    from c obtain c0 where c0: "c0 \<in> set (s_classes ?A)"
      and ceq: "c = (if c_id c0 \<in> ?D then c0\<lparr>c_is_active := False\<rparr> else c0)"
      using set_deactivate_at by blast
    from ceq have id: "c_id c = c_id c0" by (simp split: if_splits)
    from r have "find (\<lambda>r. classIdMap ?A (r_vc_class_id r) = Some (c_id c)) (rev rows) = Some r"
      by (simp add: last_row_for_def)
    then have rm: "classIdMap ?A (r_vc_class_id r) = Some (c_id c)" and rin: "r \<in> set rows"
      using find_SomeD[of "\<lambda>r. classIdMap ?A (r_vc_class_id r) = Some (c_id c)" "rev rows" r]
      by simp_all
    have v0: "c_vc_class_id c0 = r_vc_class_id r"
      using idmap_target_vc[OF d _ c0, of "r_vc_class_id r"] rm m id by simp
    have "c_id c0 \<notin> ?D"
    proof
      assume "c_id c0 \<in> ?D"
      then obtain v where p: "(c_id c0, v) \<in> set (existingClasses (asp_classes S))"
        and nv: "v \<notin> set (map r_vc_class_id rows)"
        by (auto simp: gone_ids_def)
      from p pre have "(c_id c0, v) \<in> set (existingClasses (s_classes ?A))"
        using set_mono_prefix by blast
      then obtain c1 where "c1 \<in> set (s_classes ?A)" "c_id c1 = c_id c0" "c_vc_class_id c1 = v"
        using pairs_memD by blast
      with distinct_ids_eq[OF d c0, of c1] have "v = c_vc_class_id c0" by auto
      with v0 nv rin show False by simp
    qed
    with ceq have "c = c0" by simp
    with sA c0 r id show ?thesis by (simp add: settled_def)
  qed
  then show ?thesis
    unfolding settled_def by (simp add: sync_classes_eq)
qed

subsection \<open>A second run of steps 3 and 4\<close>

lemma case_last_id [simp]:
  "c_id (case x of None \<Rightarrow> c | Some r \<Rightarrow> update_class (classData r) c) = c_id c"
  by (cases x) simp_all

lemma fold_sync_class_resolved:
  assumes "\<forall>r\<in>set rows. classIdMap st (r_vc_class_id r) \<noteq> None"
  shows "s_classes (fold (sync_class no_faults now) rows st)
           = map (\<lambda>c. case last_row_for (classIdMap st) rows (c_id c) of
                         None \<Rightarrow> c | Some r \<Rightarrow> update_class (classData r) c) (s_classes st)
         \<and> classIdMap (fold (sync_class no_faults now) rows st) = classIdMap st
         \<and> s_next_id (fold (sync_class no_faults now) rows st) = s_next_id st"
  using assms
proof (induction rows rule: rev_induct)
  case Nil
  then show ?case by (simp add: last_row_for_def)
next
  case (snoc r rows)
  let ?st = "fold (sync_class no_faults now) rows st"
  from snoc have IH: "s_classes ?st
           = map (\<lambda>c. case last_row_for (classIdMap st) rows (c_id c) of
                         None \<Rightarrow> c | Some r \<Rightarrow> update_class (classData r) c) (s_classes st)"
    "classIdMap ?st = classIdMap st" "s_next_id ?st = s_next_id st"
    by simp_all
  from snoc.prems obtain i where i: "classIdMap st (r_vc_class_id r) = Some i" by auto
  with IH(2) have mi: "classIdMap ?st (r_vc_class_id r) = Some i" by simp
  have step: "sync_class no_faults now r ?st =
         ?st\<lparr>bqClassIds := insert (r_vc_class_id r) (bqClassIds ?st), writes := Suc (writes ?st),
            s_classes := update_at i (classData r) (s_classes ?st),
            classesUpdated := Suc (classesUpdated ?st)\<rparr>"
  proof (cases rule: sync_class_cases[of ?st r no_faults now])
    case (updated j)
    with mi have "j = i" by simp
    with updated(3) show ?thesis by simp
  next
    case (update_failed j msg)
    then show ?thesis by (simp add: no_faults_def)
  next
    case (insert_failed msg)
    then show ?thesis by (simp add: no_faults_def)
  next
    case inserted
    with mi show ?thesis by simp
  qed
  have "update_at i (classData r) (s_classes ?st)
      = map (\<lambda>c. case last_row_for (classIdMap st) (rows @ [r]) (c_id c) of
                         None \<Rightarrow> c | Some r \<Rightarrow> update_class (classData r) c) (s_classes st)"
    unfolding IH(1) update_at_def map_map
    by (rule map_cong[OF refl]) (auto simp: last_row_for_snoc i split: option.splits)
  then show ?case
    unfolding fold_append comp_def fold_simps step by (simp add: IH)
qed

lemma sync_classes_stable:
  assumes d: "distinct (map c_id (asp_classes S1))"
    and res: "\<forall>r\<in>set rows. idmap (asp_classes S1) (r_vc_class_id r) \<noteq> None"
    and st: "\<forall>c\<in>set (asp_classes S1). \<forall>r. last_row_for (idmap (asp_classes S1)) rows (c_id c) = Some r
               \<longrightarrow> update_class (classData r) c = c"
    and inact: "\<forall>c\<in>set (asp_classes S1). c_vc_class_id c \<notin> set (map r_vc_class_id rows)
               \<longrightarrow> \<not> c_is_active c"
  shows "s_classes (sync_classes no_faults now rows S1) = asp_classes S1"
    and "classIdMap (sync_classes no_faults now rows S1) = idmap (asp_classes S1)"
    and "s_next_id (sync_classes no_faults now rows S1) = next_id S1"
proof -
  let ?i = "initial_state S1"
  have m0: "classIdMap ?i = idmap (asp_classes S1)" and c0: "s_classes ?i = asp_classes S1"
    and n0: "s_next_id ?i = next_id S1"
    by (simp_all add: initial_state_def idmap_def)
  from res have "\<forall>r\<in>set rows. classIdMap ?i (r_vc_class_id r) \<noteq> None"
    by (simp add: m0)
  note A = fold_sync_class_resolved[OF this, of now, unfolded m0 c0 n0]
  have "map (\<lambda>c. case last_row_for (idmap (asp_classes S1)) rows (c_id c) of
                         None \<Rightarrow> c | Some r \<Rightarrow> update_class (classData r) c) (asp_classes S1)
        = asp_classes S1"
    by (rule map_idI) (use st in \<open>auto split: option.splits\<close>)
  with A have A1: "s_classes (fold (sync_class no_faults now) rows ?i) = asp_classes S1"
    by simp
  have "deactivate_at (gone_ids (existingClasses (asp_classes S1)) (set (map r_vc_class_id rows)))
          (asp_classes S1) = asp_classes S1"
    unfolding deactivate_at_def
  proof (rule map_idI)
    fix c assume c: "c \<in> set (asp_classes S1)"
    show "(if c_id c \<in> gone_ids (existingClasses (asp_classes S1)) (set (map r_vc_class_id rows))
           then c\<lparr>c_is_active := False\<rparr> else c) = c"
    proof (cases "c_id c \<in> gone_ids (existingClasses (asp_classes S1)) (set (map r_vc_class_id rows))")
      case True
      then obtain v where "(c_id c, v) \<in> set (existingClasses (asp_classes S1))"
        and nv: "v \<notin> set (map r_vc_class_id rows)"
        by (auto simp: gone_ids_def)
      then obtain c1 where "c1 \<in> set (asp_classes S1)" "c_id c1 = c_id c" "c_vc_class_id c1 = v"
        using pairs_memD by blast
      with distinct_ids_eq[OF d c, of c1] have "c_vc_class_id c = v" by auto
      with inact c nv have "\<not> c_is_active c" by simp
      with True show ?thesis by simp
    next
      case False
      then show ?thesis by simp
    qed
  qed
  then show "s_classes (sync_classes no_faults now rows S1) = asp_classes S1"
    by (simp add: sync_classes_eq A1)
  show "classIdMap (sync_classes no_faults now rows S1) = idmap (asp_classes S1)"
    using A by (simp add: sync_classes_eq)
  show "s_next_id (sync_classes no_faults now rows S1) = next_id S1"
    using A by (simp add: sync_classes_eq)
qed

subsection \<open>Rows of enrollments\<close>

lemma has_key_iff: "has_key u s e \<longleftrightarrow> key_of e = (u, s)"
  by (auto simp: has_key_def key_of_def)

lemma merge_id [simp]: "e_id (merge_enrollment u s t e) = e_id e"
  by (simp add: merge_enrollment_def)

lemma merge_key [simp]: "key_of (merge_enrollment u s t e) = (u, s)"
  by (simp add: merge_enrollment_def key_of_def)

lemma merge_absorb [simp]:
  "merge_enrollment u s t (merge_enrollment u' s' t' e) = merge_enrollment u s t e"
  by (simp add: merge_enrollment_def)

lemma merge_insert [simp]:
  "merge_enrollment u s t (insert_enrollment n now u s t) = insert_enrollment n now u s t"
  by (simp add: merge_enrollment_def insert_enrollment_def)

lemma insert_enrollment_id [simp]: "e_id (insert_enrollment n now u s t) = n"
  by (simp add: insert_enrollment_def)

lemma insert_enrollment_key [simp]: "key_of (insert_enrollment n now u s t) = (u, s)"
  by (simp add: insert_enrollment_def key_of_def)

lemma merge_fields:
  assumes "merge_enrollment u s t e = e"
  shows "e_source e = ''veracross'' \<and> e_status e = ''active''
     \<and> e_enrollment_type e = Some t \<and> key_of e = (u, s)"
proof -
  have "e_source (merge_enrollment u s t e) = ''veracross''"
    "e_status (merge_enrollment u s t e) = ''active''"
    "e_enrollment_type (merge_enrollment u s t e) = Some t"
    "key_of (merge_enrollment u s t e) = (u, s)"
    by (simp_all add: merge_enrollment_def key_of_def)
  with assms show ?thesis by simp
qed

lemma merge_at_ids [simp]: "map e_id (merge_at u s t es) = map e_id es"
  by (simp add: merge_at_def)

lemma merge_at_keys [simp]: "map key_of (merge_at u s t es) = map key_of es"
  by (simp add: merge_at_def has_key_iff)

lemma merge_at_length [simp]: "length (merge_at u s t es) = length es"
  by (simp add: merge_at_def)

lemma set_merge_at:
  "e \<in> set (merge_at u s t es) \<Longrightarrow>
     \<exists>e0\<in>set es. e = (if key_of e0 = (u, s) then merge_enrollment u s t e0 else e0)"
  by (auto simp: merge_at_def has_key_iff)

text \<open>The four outcomes of one iteration of step 5.\<close>

lemma sync_enrollment_cases:
  obtains
    (unresolved) "classIdMap st (q_vc_class_id row) = None"
      "sync_enrollment flt now row st =
         st\<lparr>errors := errors st @ [''No class found for vc_class_id: '' @ q_vc_class_id row]\<rparr>"
  | (upsert_failed) u msg where "classIdMap st (q_vc_class_id row) = Some u"
      "flt (writes st) = Some msg"
      "sync_enrollment flt now row st =
         st\<lparr>bqEnrollmentKeys := insert (u, q_student_person_id row) (bqEnrollmentKeys st),
            writes := Suc (writes st),
            errors := errors st @
              [''Failed to upsert enrollment '' @ q_vc_class_id row @ ''/'' @
               (if q_student_person_id row < 0 then ''-'' else '''') @
               toString_nat (nat \<bar>q_student_person_id row\<bar>) @ '': '' @ msg]\<rparr>"
  | (merged) u where "classIdMap st (q_vc_class_id row) = Some u" "flt (writes st) = None"
      "\<exists>e\<in>set (s_enrollments st). key_of e = (u, q_student_person_id row)"
      "sync_enrollment flt now row st =
         st\<lparr>bqEnrollmentKeys := insert (u, q_student_person_id row) (bqEnrollmentKeys st),
            writes := Suc (writes st),
            s_enrollments := merge_at u (q_student_person_id row)
               (enrollmentType_of (q_enrollment_status row)) (s_enrollments st),
            enrollmentsUpserted := Suc (enrollmentsUpserted st)\<rparr>"
  | (inserted) u where "classIdMap st (q_vc_class_id row) = Some u" "flt (writes st) = None"
      "\<not> (\<exists>e\<in>set (s_enrollments st). key_of e = (u, q_student_person_id row))"
      "sync_enrollment flt now row st =
         st\<lparr>bqEnrollmentKeys := insert (u, q_student_person_id row) (bqEnrollmentKeys st),
            writes := Suc (writes st),
            s_enrollments := s_enrollments st @
               [insert_enrollment (s_next_id st) now u (q_student_person_id row)
                  (enrollmentType_of (q_enrollment_status row))],
            s_next_id := Suc (s_next_id st),
            enrollmentsUpserted := Suc (enrollmentsUpserted st)\<rparr>"
proof (cases "classIdMap st (q_vc_class_id row)")
  case None
  then show ?thesis
    using unresolved by (simp add: sync_enrollment_def)
next
  case (Some u)
  show ?thesis
  proof (cases "flt (writes st)")
    case (Some msg)
    with \<open>classIdMap st (q_vc_class_id row) = Some u\<close> show ?thesis
      using upsert_failed by (simp add: sync_enrollment_def Let_def)
  next
    case None
    show ?thesis
    proof (cases "\<exists>e\<in>set (s_enrollments st). key_of e = (u, q_student_person_id row)")
      case True
      with None \<open>classIdMap st (q_vc_class_id row) = Some u\<close> show ?thesis
        using merged[of u] by (simp add: sync_enrollment_def Let_def merge_at_def has_key_iff)
    next
      case False
      with None \<open>classIdMap st (q_vc_class_id row) = Some u\<close> show ?thesis
        using inserted[of u] by (simp add: sync_enrollment_def Let_def has_key_iff)
    qed
  qed
qed

lemma sync_enrollment_frame [simp]:
  "s_classes (sync_enrollment flt now row st) = s_classes st"
  "classIdMap (sync_enrollment flt now row st) = classIdMap st"
  "bqClassIds (sync_enrollment flt now row st) = bqClassIds st"
  by (cases rule: sync_enrollment_cases[of st row flt now]; simp)+

lemma sync_enrollment_keys:
  "bqEnrollmentKeys (sync_enrollment flt now row st)
     = bqEnrollmentKeys st \<union> set_option (row_key (classIdMap st) row)"
  by (cases rule: sync_enrollment_cases[of st row flt now]; simp add: row_key_def)

lemma fold_sync_enrollment_frame [simp]:
  "s_classes (fold (sync_enrollment flt now) rows st) = s_classes st"
  "classIdMap (fold (sync_enrollment flt now) rows st) = classIdMap st"
  "bqClassIds (fold (sync_enrollment flt now) rows st) = bqClassIds st"
  by (induction rows arbitrary: st) simp_all

lemma fold_sync_enrollment_keys:
  "bqEnrollmentKeys (fold (sync_enrollment flt now) rows st)
     = bqEnrollmentKeys st \<union> {k. \<exists>r\<in>set rows. row_key (classIdMap st) r = Some k}"
  by (induction rows arbitrary: st) (auto simp: sync_enrollment_keys)

lemma set_ids_merge_at: "e_id ` set (merge_at u s t es) = e_id ` set es"
  using merge_at_ids[of u s t es] by (metis set_map)

lemma phaseC_inv_step:
  assumes inv: "phaseC_inv es0 st"
  shows "phaseC_inv es0 (sync_enrollment flt now row st)"
proof (cases rule: sync_enrollment_cases[of st row flt now])
  case unresolved
  with inv show ?thesis by (simp add: phaseC_inv_def)
next
  case (upsert_failed u msg)
  with inv show ?thesis by (simp add: phaseC_inv_def)
next
  case (merged u)
  have "e_id e < s_next_id st"
    if "e \<in> set (merge_at u (q_student_person_id row) (enrollmentType_of (q_enrollment_status row))
              (s_enrollments st))" for e
    using that inv set_ids_merge_at[of u "q_student_person_id row" _ "s_enrollments st"]
    by (auto simp: phaseC_inv_def) (metis imageE imageI)
  with inv show ?thesis
    unfolding merged(4) by (simp add: phaseC_inv_def)
next
  case (inserted u)
  with inv show ?thesis
    unfolding inserted(4) by (auto simp: phaseC_inv_def less_Suc_eq intro: prefix_order.trans)
qed

lemma phaseC_inv_fold:
  "phaseC_inv es0 st \<Longrightarrow> phaseC_inv es0 (fold (sync_enrollment flt now) rows st)"
  by (induction rows arbitrary: st) (simp_all add: phaseC_inv_step)

lemma phaseC_inv_length: "phaseC_inv es0 st \<Longrightarrow> length es0 \<le> length (s_enrollments st)"
  using prefix_length_le[of "map e_id es0" "map e_id (s_enrollments st)"]
  by (simp add: phaseC_inv_def)

lemma e_untouched_step:
  assumes inv: "phaseC_inv es0 st" and u: "e_untouched es0 st"
  shows "e_untouched es0 (sync_enrollment flt now row st)"
proof (cases rule: sync_enrollment_cases[of st row flt now])
  case unresolved
  with u show ?thesis by (simp add: e_untouched_def)
next
  case (upsert_failed u msg)
  with u show ?thesis by (simp add: e_untouched_def)
next
  case (merged k)
  note len = phaseC_inv_length[OF inv]
  show ?thesis
    unfolding e_untouched_def merged(4)
    using u len by (auto simp: e_untouched_def merge_at_def has_key_iff)
next
  case (inserted k)
  note len = phaseC_inv_length[OF inv]
  show ?thesis
    unfolding e_untouched_def inserted(4)
    using u len by (auto simp: e_untouched_def nth_append)
qed

lemma e_untouched_fold:
  "phaseC_inv es0 st \<Longrightarrow> e_untouched es0 st
     \<Longrightarrow> e_untouched es0 (fold (sync_enrollment flt now) rows st)"
  by (induction rows arbitrary: st) (simp_all add: e_untouched_step phaseC_inv_step)

lemma last_enrollment_for_snoc:
  "last_enrollment_for m (rows @ [r]) k =
     (if row_key m r = Some k then Some r else last_enrollment_for m rows k)"
  by (simp add: last_enrollment_for_def)

lemma merged_with_id [simp]: "e_id (merged_with r e) = e_id e"
  by (simp add: merged_with_def)

lemma merged_with_key [simp]: "key_of (merged_with r e) = key_of e"
  by (simp add: merged_with_def key_of_def merge_enrollment_def)

lemma merged_with_merge:
  "key_of e = (u, s) \<Longrightarrow>
   merge_enrollment u s (enrollmentType_of (q_enrollment_status r)) e = merged_with r e"
  by (simp add: merged_with_def key_of_def)

lemma merged_with_absorb [simp]: "merged_with r (merged_with r' e) = merged_with r e"
  by (simp add: merged_with_def merge_enrollment_def)

lemma e_settled_Nil [simp]: "e_settled [] st"
  by (simp add: e_settled_def last_enrollment_for_def)

lemma e_settled_step:
  assumes s: "e_settled rows st"
  shows "e_settled (rows @ [row]) (sync_enrollment no_faults now row st)"
proof (cases rule: sync_enrollment_cases[of st row no_faults now])
  case unresolved
  then have "row_key (classIdMap st) row = None" by (simp add: row_key_def)
  with s show ?thesis
    unfolding e_settled_def unresolved(2) by (simp add: last_enrollment_for_snoc)
next
  case (upsert_failed u msg)
  then show ?thesis by (simp add: no_faults_def)
next
  case (merged u)
  let ?s = "q_student_person_id row" and ?t = "enrollmentType_of (q_enrollment_status row)"
  have rk: "row_key (classIdMap st) row = Some (u, ?s)"
    using merged(1) by (simp add: row_key_def)
  have "merged_with r e = e"
    if e: "e \<in> set (merge_at u ?s ?t (s_enrollments st))"
      and r: "last_enrollment_for (classIdMap st) (rows @ [row]) (key_of e) = Some r" for e r
  proof -
    from set_merge_at[OF e] obtain e0 where e0: "e0 \<in> set (s_enrollments st)"
      and eeq: "e = (if key_of e0 = (u, ?s) then merge_enrollment u ?s ?t e0 else e0)"
      by blast
    show ?thesis
    proof (cases "key_of e0 = (u, ?s)")
      case True
      with eeq have e1: "e = merged_with row e0" by (simp add: merged_with_merge)
      with True r rk have "r = row" by (simp add: last_enrollment_for_snoc)
      with e1 show ?thesis by simp
    next
      case False
      with eeq r rk have "last_enrollment_for (classIdMap st) rows (key_of e0) = Some r"
        by (simp add: last_enrollment_for_snoc)
      with s e0 False eeq show ?thesis by (simp add: e_settled_def)
    qed
  qed
  then show ?thesis
    unfolding e_settled_def merged(4) by simp
next
  case (inserted u)
  let ?s = "q_student_person_id row" and ?t = "enrollmentType_of (q_enrollment_status row)"
  have rk: "row_key (classIdMap st) row = Some (u, ?s)"
    using inserted(1) by (simp add: row_key_def)
  have "merged_with r e = e"
    if e: "e \<in> set (s_enrollments st @ [insert_enrollment (s_next_id st) now u ?s ?t])"
      and r: "last_enrollment_for (classIdMap st) (rows @ [row]) (key_of e) = Some r" for e r
  proof (cases "e \<in> set (s_enrollments st)")
    case True
    with inserted(3) have "key_of e \<noteq> (u, ?s)" by auto
    with r rk have "last_enrollment_for (classIdMap st) rows (key_of e) = Some r"
      by (simp add: last_enrollment_for_snoc)
    with s True show ?thesis by (simp add: e_settled_def)
  next
    case False
    with e have eeq: "e = insert_enrollment (s_next_id st) now u ?s ?t" by simp
    with r rk have "r = row" by (simp add: last_enrollment_for_snoc)
    with eeq show ?thesis
      by (simp add: merged_with_def insert_enrollment_def merge_enrollment_def)
  qed
  then show ?thesis
    unfolding e_settled_def inserted(4) by simp
qed

lemma e_settled_fold:
  "e_settled rows (fold (sync_enrollment no_faults now) rows st)"
proof (induction rows rule: rev_induct)
  case Nil
  then show ?case by simp
next
  case (snoc r rows)
  then show ?case
    using e_settled_step[of rows "fold (sync_enrollment no_faults now) rows st" r now] by simp
qed

lemma covered_step:
  assumes c: "covered st"
  shows "covered (sync_enrollment no_faults now row st)"
proof (cases rule: sync_enrollment_cases[of st row no_faults now])
  case unresolved
  with c show ?thesis by (simp add: covered_def)
next
  case (upsert_failed u msg)
  then show ?thesis by (simp add: no_faults_def)
next
  case (merged u)
  have eq: "key_of ` set (merge_at u (q_student_person_id row)
           (enrollmentType_of (q_enrollment_status row)) (s_enrollments st))
        = key_of ` set (s_enrollments st)"
    using merge_at_keys[of u "q_student_person_id row" _ "s_enrollments st"] by (metis set_map)
  from merged(3) have "(u, q_student_person_id row) \<in> key_of ` set (s_enrollments st)"
    by force
  with c show ?thesis
    unfolding covered_def merged(4) by (simp add: eq)
next
  case (inserted u)
  with c show ?thesis
    unfolding covered_def inserted(4) by auto
qed

lemma covered_fold: "covered st \<Longrightarrow> covered (fold (sync_enrollment no_faults now) rows st)"
  by (induction rows arbitrary: st) (simp_all add: covered_step)

subsection \<open>Step 6: the deactivation of enrollments\<close>

lemma stale_ids_Nil [simp]: "stale_ids [] keys = {}"
  by (simp add: stale_ids_def)

lemma stale_ids_Cons:
  "stale_ids (p # ps) keys
     = (if snd p \<notin> keys then insert (fst p) (stale_ids ps keys) else stale_ids ps keys)"
  by (cases p) (auto simp: stale_ids_def)

lemma deactivate_row_id [simp]: "e_id (deactivate_row e) = e_id e"
  by (simp add: deactivate_row_def)

lemma deactivate_row_key [simp]: "key_of (deactivate_row e) = key_of e"
  by (simp add: deactivate_row_def key_of_def)

lemma deactivate_row_idem [simp]: "deactivate_row (deactivate_row e) = deactivate_row e"
  by (simp add: deactivate_row_def)

lemma deactivate_row_status [simp]: "e_status (deactivate_row e) = ''inactive''"
  by (simp add: deactivate_row_def)

lemma deactivate_rows_empty [simp]: "deactivate_rows {} es = es"
  by (simp add: deactivate_rows_def)

lemma deactivate_rows_insert:
  "deactivate_rows D (map (\<lambda>e. if e_id e = i then deactivate_row e else e) es)
     = deactivate_rows (insert i D) es"
  by (simp add: deactivate_rows_def)

lemma deactivate_rows_ids [simp]: "map e_id (deactivate_rows D es) = map e_id es"
  by (simp add: deactivate_rows_def)

lemma deactivate_rows_keys [simp]: "map key_of (deactivate_rows D es) = map key_of es"
  by (simp add: deactivate_rows_def)

lemma deactivate_rows_length [simp]: "length (deactivate_rows D es) = length es"
  by (simp add: deactivate_rows_def)

lemma deactivate_rows_nth:
  "j < length es \<Longrightarrow> deactivate_rows D es ! j
     = (if e_id (es ! j) \<in> D then deactivate_row (es ! j) else es ! j)"
  by (simp add: deactivate_rows_def)

lemma set_deactivate_rows:
  "e \<in> set (deactivate_rows D es) \<Longrightarrow>
     \<exists>e0\<in>set es. e = (if e_id e0 \<in> D then deactivate_row e0 else e0)"
  by (auto simp: deactivate_rows_def)

lemma deactivate_enrollment_eq:
  "deactivate_enrollment p st =
     (if snd p \<notin> bqEnrollmentKeys st
      then st\<lparr>s_enrollments := map (\<lambda>e. if e_id e = fst p then deactivate_row e else e)
                                   (s_enrollments st),
              enrollmentsDeactivated := Suc (enrollmentsDeactivated st)\<rparr>
      else st)"
  by (cases p) (simp add: deactivate_enrollment_def)

lemma deactivate_enrollment_frame [simp]:
  "s_classes (deactivate_enrollment p st) = s_classes st"
  "classIdMap (deactivate_enrollment p st) = classIdMap st"
  "bqClassIds (deactivate_enrollment p st) = bqClassIds st"
  "bqEnrollmentKeys (deactivate_enrollment p st) = bqEnrollmentKeys st"
  "s_next_id (deactivate_enrollment p st) = s_next_id st"
  "errors (deactivate_enrollment p st) = errors st"
  by (simp_all add: deactivate_enrollment_eq)

lemma fold_deactivate_enrollment_frame [simp]:
  "s_classes (fold deactivate_enrollment ps st) = s_classes st"
  "classIdMap (fold deactivate_enrollment ps st) = classIdMap st"
  "bqClassIds (fold deactivate_enrollment ps st) = bqClassIds st"
  "bqEnrollmentKeys (fold deactivate_enrollment ps st) = bqEnrollmentKeys st"
  "s_next_id (fold deactivate_enrollment ps st) = s_next_id st"
  "errors (fold deactivate_enrollment ps st) = errors st"
  by (induction ps arbitrary: st) simp_all

lemma fold_deactivate_enrollment_rows:
  "s_enrollments (fold deactivate_enrollment ps st)
     = deactivate_rows (stale_ids ps (bqEnrollmentKeys st)) (s_enrollments st)"
proof (induction ps arbitrary: st)
  case Nil
  then show ?case by simp
next
  case (Cons p ps)
  show ?case
  proof (cases "snd p \<in> bqEnrollmentKeys st")
    case True
    then have "deactivate_enrollment p st = st"
      by (simp add: deactivate_enrollment_eq)
    with True Cons.IH[of st] show ?thesis by (simp add: stale_ids_Cons)
  next
    case False
    then have "s_enrollments (deactivate_enrollment p st)
        = map (\<lambda>e. if e_id e = fst p then deactivate_row e else e) (s_enrollments st)"
      by (simp add: deactivate_enrollment_eq)
    with False Cons.IH[of "deactivate_enrollment p st"] show ?thesis
      by (simp add: stale_ids_Cons deactivate_rows_insert)
  qed
qed

lemma stale_ids_selected:
  "stale_ids (existingEnrollments es) keys
     = {e_id e | e. e \<in> set es \<and> e_source e = ''veracross'' \<and> e_status e = ''active''
                     \<and> key_of e \<notin> keys}"
  by (auto simp: stale_ids_def existingEnrollments_def key_of_def)

lemma sync_enrollments_eq:
  "s_enrollments (sync_enrollments flt now rows st)
     = deactivate_rows
         (stale_ids (existingEnrollments (s_enrollments (fold (sync_enrollment flt now) rows st)))
            (bqEnrollmentKeys (fold (sync_enrollment flt now) rows st)))
         (s_enrollments (fold (sync_enrollment flt now) rows st))"
  "s_classes (sync_enrollments flt now rows st) = s_classes st"
  "classIdMap (sync_enrollments flt now rows st) = classIdMap st"
  "bqClassIds (sync_enrollments flt now rows st) = bqClassIds st"
  "bqEnrollmentKeys (sync_enrollments flt now rows st)
     = bqEnrollmentKeys st \<union> {k. \<exists>r\<in>set rows. row_key (classIdMap st) r = Some k}"
  "s_next_id (sync_enrollments flt now rows st) = s_next_id (fold (sync_enrollment flt now) rows st)"
  "errors (sync_enrollments flt now rows st) = errors (fold (sync_enrollment flt now) rows st)"
  by (simp_all add: sync_enrollments_def Let_def fold_deactivate_enrollment_rows
      fold_sync_enrollment_keys)

subsection \<open>The state after a pass without faults\<close>

lemma phaseC_inv_after_classes:
  assumes wf: "wf_store S"
  shows "phaseC_inv (asp_enrollments S) (sync_classes flt now cr S)"
  using wf sync_classes_inv(5)[OF wf, of flt now cr]
  by (auto simp: phaseC_inv_def sync_classes_eq wf_store_def)

lemma run_sync_eq:
  "s_classes (run_sync flt now cr er S) = s_classes (sync_classes flt now cr S)"
  "classIdMap (run_sync flt now cr er S) = classIdMap (sync_classes flt now cr S)"
  "bqClassIds (run_sync flt now cr er S) = set (map r_vc_class_id cr)"
  "bqEnrollmentKeys (run_sync flt now cr er S)
     = {k. \<exists>r\<in>set er. row_key (classIdMap (sync_classes flt now cr S)) r = Some k}"
  by (simp_all add: run_sync_def sync_enrollments_eq sync_classes_eq)

lemma run_sync_enrollment_ids:
  assumes wf: "wf_store S"
  shows "distinct (map e_id (s_enrollments (run_sync flt now cr er S)))"
    and "\<forall>e\<in>set (s_enrollments (run_sync flt now cr er S)). e_id e < s_next_id (run_sync flt now cr er S)"
    and "prefix (map e_id (asp_enrollments S)) (map e_id (s_enrollments (run_sync flt now cr er S)))"
proof -
  let ?B = "sync_classes flt now cr S"
  let ?C = "fold (sync_enrollment flt now) er ?B"
  have inv: "phaseC_inv (asp_enrollments S) ?C"
    using phaseC_inv_fold[OF phaseC_inv_after_classes[OF wf]] .
  show "distinct (map e_id (s_enrollments (run_sync flt now cr er S)))"
    using inv by (simp add: run_sync_def sync_enrollments_eq phaseC_inv_def)
  show "prefix (map e_id (asp_enrollments S)) (map e_id (s_enrollments (run_sync flt now cr er S)))"
    using inv by (simp add: run_sync_def sync_enrollments_eq phaseC_inv_def)
  show "\<forall>e\<in>set (s_enrollments (run_sync flt now cr er S)). e_id e < s_next_id (run_sync flt now cr er S)"
  proof
    fix e assume "e \<in> set (s_enrollments (run_sync flt now cr er S))"
    then have "e_id e \<in> set (map e_id (s_enrollments (run_sync flt now cr er S)))" by simp
    then have "e_id e \<in> set (map e_id (s_enrollments ?C))"
      by (simp add: run_sync_def sync_enrollments_eq)
    then show "e_id e < s_next_id (run_sync flt now cr er S)"
      using inv by (auto simp: run_sync_def sync_enrollments_eq phaseC_inv_def)
  qed
qed

lemma distinct_e_ids_eq:
  "distinct (map e_id es) \<Longrightarrow> e \<in> set es \<Longrightarrow> e' \<in> set es \<Longrightarrow> e_id e = e_id e' \<Longrightarrow> e = e'"
  by (meson distinct_map inj_on_def)

text \<open>After the pass every active row of the sync has its key in the feed.\<close>

lemma run_sync_active_in_feed:
  assumes e: "e \<in> set (s_enrollments (run_sync flt now cr er S))"
    and a: "e_source e = ''veracross''" "e_status e = ''active''"
  shows "key_of e \<in> bqEnrollmentKeys (run_sync flt now cr er S)"
proof -
  let ?C = "fold (sync_enrollment flt now) er (sync_classes flt now cr S)"
  let ?D = "stale_ids (existingEnrollments (s_enrollments ?C)) (bqEnrollmentKeys ?C)"
  have keys: "bqEnrollmentKeys (run_sync flt now cr er S) = bqEnrollmentKeys ?C"
    by (simp add: run_sync_def sync_enrollments_def Let_def)
  from e obtain e0 where e0: "e0 \<in> set (s_enrollments ?C)"
    and eeq: "e = (if e_id e0 \<in> ?D then deactivate_row e0 else e0)"
    unfolding run_sync_def sync_enrollments_eq using set_deactivate_rows by blast
  from a(2) eeq have nd: "e_id e0 \<notin> ?D" and ee: "e = e0"
    by (auto split: if_splits)
  show ?thesis
  proof (rule ccontr)
    assume "key_of e \<notin> bqEnrollmentKeys (run_sync flt now cr er S)"
    with keys ee a e0 have "e_id e0 \<in> ?D"
      unfolding stale_ids_selected by auto
    with nd show False by simp
  qed
qed

lemma run_sync_settled:
  assumes wf: "wf_store S"
    and e: "e \<in> set (s_enrollments (run_sync no_faults now cr er S))"
    and r: "last_enrollment_for (classIdMap (sync_classes no_faults now cr S)) er (key_of e) = Some r"
  shows "merged_with r e = e"
proof -
  let ?B = "sync_classes no_faults now cr S"
  let ?C = "fold (sync_enrollment no_faults now) er ?B"
  let ?D = "stale_ids (existingEnrollments (s_enrollments ?C)) (bqEnrollmentKeys ?C)"
  have inv: "phaseC_inv (asp_enrollments S) ?C"
    using phaseC_inv_fold[OF phaseC_inv_after_classes[OF wf]] .
  then have d: "distinct (map e_id (s_enrollments ?C))" by (simp add: phaseC_inv_def)
  have sC: "e_settled er ?C" by (rule e_settled_fold)
  have keys: "bqEnrollmentKeys ?C = {k. \<exists>r\<in>set er. row_key (classIdMap ?B) r = Some k}"
    by (simp add: fold_sync_enrollment_keys sync_classes_eq)
  from e obtain e0 where e0: "e0 \<in> set (s_enrollments ?C)"
    and eeq: "e = (if e_id e0 \<in> ?D then deactivate_row e0 else e0)"
    unfolding run_sync_def sync_enrollments_eq using set_deactivate_rows by blast
  from eeq have k: "key_of e = key_of e0" by (simp split: if_splits)
  from r have "row_key (classIdMap ?B) r = Some (key_of e)" "r \<in> set er"
    using find_SomeD[of "\<lambda>r. row_key (classIdMap ?B) r = Some (key_of e)" "rev er" r]
    by (simp_all add: last_enrollment_for_def)
  then have kin: "key_of e0 \<in> bqEnrollmentKeys ?C"
    unfolding keys k by blast
  have "e_id e0 \<notin> ?D"
  proof
    assume "e_id e0 \<in> ?D"
    then obtain e1 where "e1 \<in> set (s_enrollments ?C)" "e_id e1 = e_id e0"
      "key_of e1 \<notin> bqEnrollmentKeys ?C"
      unfolding stale_ids_selected by auto
    with distinct_e_ids_eq[OF d e0, of e1] kin show False by auto
  qed
  with eeq have "e = e0" by simp
  with sC e0 r show ?thesis by (simp add: e_settled_def)
qed

lemma run_sync_covered:
  "bqEnrollmentKeys (run_sync no_faults now cr er S)
     \<subseteq> key_of ` set (s_enrollments (run_sync no_faults now cr er S))"
proof -
  let ?B = "sync_classes no_faults now cr S"
  let ?C = "fold (sync_enrollment no_faults now) er ?B"
  have "covered ?B" by (simp add: covered_def sync_classes_eq)
  then have "covered ?C" by (rule covered_fold)
  moreover have "key_of ` set (s_enrollments (run_sync no_faults now cr er S))
      = key_of ` set (s_enrollments ?C)"
    unfolding run_sync_def sync_enrollments_eq
    using deactivate_rows_keys[of _ "s_enrollments ?C"] by (metis set_map)
  moreover have "bqEnrollmentKeys (run_sync no_faults now cr er S) = bqEnrollmentKeys ?C"
    by (simp add: run_sync_def sync_enrollments_def Let_def)
  ultimately show ?thesis by (simp add: covered_def)
qed

subsection \<open>A second run of steps 5 and 6\<close>

lemma case_last_key [simp]:
  "key_of (case x of None \<Rightarrow> e | Some r \<Rightarrow> merged_with r e) = key_of e"
  by (cases x) simp_all

lemma case_last_merged [simp]:
  "merged_with r (case x of None \<Rightarrow> e | Some r' \<Rightarrow> merged_with r' e) = merged_with r e"
  by (cases x) simp_all

lemma fold_sync_enrollment_present:
  assumes cov: "\<forall>r\<in>set rows. \<forall>k. row_key (classIdMap st) r = Some k
                  \<longrightarrow> k \<in> key_of ` set (s_enrollments st)"
  shows "s_enrollments (fold (sync_enrollment no_faults now) rows st)
           = map (\<lambda>e. case last_enrollment_for (classIdMap st) rows (key_of e) of
                         None \<Rightarrow> e | Some r \<Rightarrow> merged_with r e) (s_enrollments st)
         \<and> s_next_id (fold (sync_enrollment no_faults now) rows st) = s_next_id st"
  using cov
proof (induction rows rule: rev_induct)
  case Nil
  then show ?case by (simp add: last_enrollment_for_def)
next
  case (snoc r rows)
  let ?st = "fold (sync_enrollment no_faults now) rows st"
  let ?f = "\<lambda>rows e. case last_enrollment_for (classIdMap st) rows (key_of e) of
                         None \<Rightarrow> e | Some r \<Rightarrow> merged_with r e"
  from snoc have IH: "s_enrollments ?st = map (?f rows) (s_enrollments st)"
    "s_next_id ?st = s_next_id st"
    by simp_all
  have m: "classIdMap ?st = classIdMap st" by simp
  have keys: "key_of ` set (s_enrollments ?st) = key_of ` set (s_enrollments st)"
    unfolding IH(1) by (simp add: image_image)
  have "s_enrollments (sync_enrollment no_faults now r ?st) = map (?f (rows @ [r])) (s_enrollments st)
        \<and> s_next_id (sync_enrollment no_faults now r ?st) = s_next_id st"
  proof (cases rule: sync_enrollment_cases[of ?st r no_faults now])
    case unresolved
    then have "row_key (classIdMap st) r = None" by (simp add: row_key_def)
    then show ?thesis
      unfolding unresolved(2) by (simp add: IH last_enrollment_for_snoc)
  next
    case (upsert_failed u msg)
    then show ?thesis by (simp add: no_faults_def)
  next
    case (merged u)
    have rk: "row_key (classIdMap st) r = Some (u, q_student_person_id r)"
      using merged(1) by (simp add: row_key_def)
    have "merge_at u (q_student_person_id r) (enrollmentType_of (q_enrollment_status r))
            (map (?f rows) (s_enrollments st)) = map (?f (rows @ [r])) (s_enrollments st)"
      unfolding merge_at_def map_map
      by (rule map_cong[OF refl])
         (simp add: has_key_iff last_enrollment_for_snoc rk merged_with_merge comp_def)
    then show ?thesis
      unfolding merged(4) by (simp add: IH)
  next
    case (inserted u)
    have "row_key (classIdMap st) r = Some (u, q_student_person_id r)"
      using inserted(1) by (simp add: row_key_def)
    with snoc.prems have "(u, q_student_person_id r) \<in> key_of ` set (s_enrollments st)"
      by simp
    with inserted(3) keys show ?thesis by force
  qed
  then show ?case by simp
qed

lemma sync_enrollments_stable:
  assumes cov: "\<forall>r\<in>set rows. \<forall>k. row_key (classIdMap st) r = Some k
                  \<longrightarrow> k \<in> key_of ` set (s_enrollments st)"
    and settled: "\<forall>e\<in>set (s_enrollments st). \<forall>r.
                  last_enrollment_for (classIdMap st) rows (key_of e) = Some r \<longrightarrow> merged_with r e = e"
    and active: "\<forall>e\<in>set (s_enrollments st). e_source e = ''veracross'' \<and> e_status e = ''active''
                  \<longrightarrow> (\<exists>r\<in>set rows. row_key (classIdMap st) r = Some (key_of e))"
    and k0: "bqEnrollmentKeys st = {}"
  shows "s_enrollments (sync_enrollments no_faults now rows st) = s_enrollments st"
    and "s_next_id (sync_enrollments no_faults now rows st) = s_next_id st"
proof -
  let ?C = "fold (sync_enrollment no_faults now) rows st"
  note C = fold_sync_enrollment_present[OF cov, of now]
  have "map (\<lambda>e. case last_enrollment_for (classIdMap st) rows (key_of e) of
                         None \<Rightarrow> e | Some r \<Rightarrow> merged_with r e) (s_enrollments st)
        = s_enrollments st"
    by (rule map_idI) (use settled in \<open>auto split: option.splits\<close>)
  with C have C1: "s_enrollments ?C = s_enrollments st" by simp
  have keys: "bqEnrollmentKeys ?C = {k. \<exists>r\<in>set rows. row_key (classIdMap st) r = Some k}"
    by (simp add: fold_sync_enrollment_keys k0)
  have "stale_ids (existingEnrollments (s_enrollments ?C)) (bqEnrollmentKeys ?C) = {}"
    unfolding stale_ids_selected C1 keys using active by auto
  then show "s_enrollments (sync_enrollments no_faults now rows st) = s_enrollments st"
    by (simp add: sync_enrollments_eq C1)
  show "s_next_id (sync_enrollments no_faults now rows st) = s_next_id st"
    using C by (simp add: sync_enrollments_eq)
qed

lemma wf_scenario_store: "wf_store scenario_store"
  by (simp add: wf_store_def scenario_store_def blank_class_def blank_enrollment_def)

lemma store_after_fields:
  "asp_classes (store_after st now el S) = s_classes st"
  "asp_enrollments (store_after st now el S) = s_enrollments st"
  "next_id (store_after st now el S) = s_next_id st"
  "system_last_vc_sync (store_after st now el S) = Some now"
  by (simp_all add: store_after_def)

lemma POST_Some:
  "fst (POST flt now el (Some (cr, er)) S) = store_after (run_sync flt now cr er S) now el S"
  by (simp add: POST_def Let_def)

text \<open>
  C1. From a store with unique row ids, and with a store that rejects no write: a second
  pass over the unchanged feed leaves the tables of classes and enrollments as the first
  pass left them, row for row and field for field, and creates no row (the id generator
  has not moved); the pass writes the time of the sync.
\<close>

theorem C1_second_pass_changes_no_row:
  assumes wf: "wf_store S"
  shows "asp_classes (fst (POST no_faults now' el' (Some (cr, er))
                        (fst (POST no_faults now el (Some (cr, er)) S))))
           = asp_classes (fst (POST no_faults now el (Some (cr, er)) S))
       \<and> asp_enrollments (fst (POST no_faults now' el' (Some (cr, er))
                        (fst (POST no_faults now el (Some (cr, er)) S))))
           = asp_enrollments (fst (POST no_faults now el (Some (cr, er)) S))
       \<and> next_id (fst (POST no_faults now' el' (Some (cr, er))
                        (fst (POST no_faults now el (Some (cr, er)) S))))
           = next_id (fst (POST no_faults now el (Some (cr, er)) S))
       \<and> system_last_vc_sync (fst (POST no_faults now' el' (Some (cr, er))
                        (fst (POST no_faults now el (Some (cr, er)) S)))) = Some now'"
proof -
  let ?B = "sync_classes no_faults now cr S"
  let ?R = "run_sync no_faults now cr er S"
  let ?S1 = "store_after ?R now el S"
  let ?B2 = "sync_classes no_faults now' cr ?S1"
  have S1c: "asp_classes ?S1 = s_classes ?B"
    by (simp add: store_after_def run_sync_eq)
  have S1e: "asp_enrollments ?S1 = s_enrollments ?R"
    by (simp add: store_after_def)
  have S1n: "next_id ?S1 = s_next_id ?R"
    by (simp add: store_after_def)
  have m1: "classIdMap ?B = idmap (asp_classes ?S1)"
    unfolding S1c using sync_classes_inv(3)[OF wf, of no_faults now cr] .
  have d: "distinct (map c_id (asp_classes ?S1))"
    unfolding S1c using sync_classes_inv(1)[OF wf, of no_faults now cr] .
  have res: "\<forall>r\<in>set cr. idmap (asp_classes ?S1) (r_vc_class_id r) \<noteq> None"
  proof
    fix r assume "r \<in> set cr"
    then have "classIdMap (fold (sync_class no_faults now) cr (initial_state S)) (r_vc_class_id r) \<noteq> None"
      by (rule fold_sync_class_resolves)
    then have "classIdMap ?B (r_vc_class_id r) \<noteq> None"
      by (simp add: sync_classes_eq(2))
    then show "idmap (asp_classes ?S1) (r_vc_class_id r) \<noteq> None"
      unfolding m1 .
  qed
  have st: "\<forall>c\<in>set (asp_classes ?S1). \<forall>r. last_row_for (idmap (asp_classes ?S1)) cr (c_id c) = Some r
               \<longrightarrow> update_class (classData r) c = c"
    using sync_classes_settled[OF wf, of cr now] unfolding settled_def m1 S1c .
  have inact: "\<forall>c\<in>set (asp_classes ?S1). c_vc_class_id c \<notin> set (map r_vc_class_id cr)
               \<longrightarrow> \<not> c_is_active c"
    unfolding S1c using sync_classes_unseen_inactive[OF wf, of _ no_faults now cr] by blast
  note B2 = sync_classes_stable[OF d res st inact, of now']
  have B2m: "classIdMap ?B2 = classIdMap ?B" using B2(2) m1 by simp
  have B2e: "s_enrollments ?B2 = s_enrollments ?R"
    by (simp only: sync_classes_eq(4) S1e)
  have B2k: "bqEnrollmentKeys ?B2 = {}" by (simp add: sync_classes_eq)
  have keysR: "bqEnrollmentKeys ?R = {k. \<exists>r\<in>set er. row_key (classIdMap ?B) r = Some k}"
    by (simp add: run_sync_eq)
  have cov: "\<forall>r\<in>set er. \<forall>k. row_key (classIdMap ?B2) r = Some k
                  \<longrightarrow> k \<in> key_of ` set (s_enrollments ?B2)"
    using run_sync_covered[of now cr er S] unfolding B2m B2e keysR by blast
  have settled: "\<forall>e\<in>set (s_enrollments ?B2). \<forall>r.
                  last_enrollment_for (classIdMap ?B2) er (key_of e) = Some r \<longrightarrow> merged_with r e = e"
    using run_sync_settled[OF wf, of _ now cr er] unfolding B2m B2e by blast
  have active: "\<forall>e\<in>set (s_enrollments ?B2). e_source e = ''veracross'' \<and> e_status e = ''active''
                  \<longrightarrow> (\<exists>r\<in>set er. row_key (classIdMap ?B2) r = Some (key_of e))"
    using run_sync_active_in_feed[of _ no_faults now cr er S] unfolding B2m B2e keysR by blast
  note E2 = sync_enrollments_stable[OF cov settled active B2k, of now']
  have R2c: "s_classes (run_sync no_faults now' cr er ?S1) = asp_classes ?S1"
    using B2(1) by (simp only: run_sync_eq(1))
  have R2e: "s_enrollments (run_sync no_faults now' cr er ?S1) = asp_enrollments ?S1"
    using E2(1) B2e S1e by (simp add: run_sync_def)
  have R2n: "s_next_id (run_sync no_faults now' cr er ?S1) = next_id ?S1"
    using E2(2) B2(3) unfolding run_sync_def by simp
  show ?thesis
    unfolding POST_Some by (simp add: store_after_fields R2c R2e R2n)
qed

lemma scenario_first_pass:
  "next_id (fst (POST no_faults 100 5 (Some (scenario_classRows, scenario_enrollmentRows)) scenario_store)) = 8"
  by code_simp

theorem C1_second_pass_changes_no_row_witness:
  "wf_store scenario_store
   \<and> asp_classes (fst (POST no_faults 200 6 (Some (scenario_classRows, scenario_enrollmentRows))
        (fst (POST no_faults 100 5 (Some (scenario_classRows, scenario_enrollmentRows)) scenario_store))))
       = asp_classes (fst (POST no_faults 100 5 (Some (scenario_classRows, scenario_enrollmentRows)) scenario_store))
   \<and> asp_enrollments (fst (POST no_faults 200 6 (Some (scenario_classRows, scenario_enrollmentRows))
        (fst (POST no_faults 100 5 (Some (scenario_classRows, scenario_enrollmentRows)) scenario_store))))
       = asp_enrollments (fst (POST no_faults 100 5 (Some (scenario_classRows, scenario_enrollmentRows)) scenario_store))
   \<and> next_id (fst (POST no_faults 200 6 (Some (scenario_classRows, scenario_enrollmentRows))
        (fst (POST no_faults 100 5 (Some (scenario_classRows, scenario_enrollmentRows)) scenario_store)))) = 8
   \<and> system_last_vc_sync (fst (POST no_faults 200 6 (Some (scenario_classRows, scenario_enrollmentRows))
        (fst (POST no_faults 100 5 (Some (scenario_classRows, scenario_enrollmentRows)) scenario_store)))) = Some 200"
proof -
  have wf: "wf_store scenario_store"
    by (simp add: wf_store_def scenario_store_def blank_class_def blank_enrollment_def)
  have n: "next_id (fst (POST no_faults 100 5 (Some (scenario_classRows, scenario_enrollmentRows)) scenario_store)) = 8"
    by code_simp
  from C1_second_pass_changes_no_row[OF wf, of 200 6 scenario_classRows scenario_enrollmentRows 100 5]
  show ?thesis
    using wf n by simp
qed

subsection \<open>Claim C5: classes after one pass\<close>

lemma frame_update_class [simp]: "frame (update_class d c) = frame c"
  by (simp add: frame_def update_class_def)

lemma frame_inactive [simp]: "frame (c\<lparr>c_is_active := b\<rparr>) = frame c"
  by (simp add: frame_def)

lemma update_class_frame: "update_class d (frame c) = update_class d c"
  by (simp add: frame_def update_class_def)

lemma frame_eq_update: "frame c = frame c' \<Longrightarrow> update_class d c = update_class d c'"
  using update_class_frame[of d c] update_class_frame[of d c'] by simp

lemma fresh_update_class [simp]: "fresh now (update_class d c) = fresh now c"
  by (simp add: fresh_def update_class_def)

lemma fresh_inactive [simp]: "fresh now (c\<lparr>c_is_active := b\<rparr>) = fresh now c"
  by (simp add: fresh_def)

lemma fresh_insert_class [simp]: "fresh now (insert_class n now d)"
  by (simp add: fresh_def insert_class_def)

lemma fresh_update_insert: "fresh now c \<Longrightarrow> update_class d c = insert_class (c_id c) now d"
  by (cases c) (simp add: fresh_def update_class_def insert_class_def)

lemma frame_update_at [simp]: "map frame (update_at i d cs) = map frame cs"
  by (simp add: update_at_def)

lemma frame_deactivate_at [simp]: "map frame (deactivate_at D cs) = map frame cs"
  by (simp add: deactivate_at_def)

lemma prefix_nth_eq: "prefix xs ys \<Longrightarrow> j < length xs \<Longrightarrow> ys ! j = xs ! j"
  by (auto simp: prefix_def nth_append)

lemma phaseA_rows_step:
  assumes inv: "phaseA_inv (asp_classes S) st" and rows: "phaseA_rows S now st"
  shows "phaseA_rows S now (sync_class flt now row st)"
proof (cases rule: sync_class_cases[of st row flt now])
  case (update_failed i msg)
  with rows show ?thesis by (simp add: phaseA_rows_def)
next
  case (insert_failed msg)
  with rows show ?thesis by (simp add: phaseA_rows_def)
next
  case (updated i)
  let ?cs = "s_classes st" and ?d = "classData row"
  from inv have d: "distinct (map c_id ?cs)" and m: "idmap ?cs (r_vc_class_id row) = Some i"
    using updated(1) by (simp_all add: phaseA_inv_def)
  have same: "\<exists>c0\<in>set ?cs. c_id c0 = c_id c \<and> c_vc_class_id c0 = c_vc_class_id c
      \<and> fresh now c0 = fresh now c"
    if "c \<in> set (update_at i ?d ?cs)" for c
  proof -
    from that obtain c0 where c0: "c0 \<in> set ?cs"
      and ceq: "c = (if c_id c0 = i then update_class ?d c0 else c0)"
      by (auto simp: update_at_def)
    show ?thesis
    proof (cases "c_id c0 = i")
      case True
      with idmap_target_vc[OF d m c0] have "c_vc_class_id c0 = r_vc_class_id row" by simp
      with True ceq c0 show ?thesis by auto
    next
      case False
      with ceq c0 show ?thesis by auto
    qed
  qed
  have "(c_id c < next_id S \<longrightarrow> (c_id c, c_vc_class_id c) \<in> set (existingClasses (asp_classes S)))
      \<and> (next_id S \<le> c_id c \<longrightarrow> fresh now c \<and> classIdMap st (c_vc_class_id c) = Some (c_id c))"
    if "c \<in> set (update_at i ?d ?cs)" for c
  proof -
    from same[OF that] obtain c0 where c0: "c0 \<in> set ?cs" "c_id c0 = c_id c"
      "c_vc_class_id c0 = c_vc_class_id c" "fresh now c0 = fresh now c"
      by blast
    from rows c0(1) have "(c_id c0 < next_id S \<longrightarrow> (c_id c0, c_vc_class_id c0) \<in> set (existingClasses (asp_classes S)))
      \<and> (next_id S \<le> c_id c0 \<longrightarrow> fresh now c0 \<and> classIdMap st (c_vc_class_id c0) = Some (c_id c0))"
      unfolding phaseA_rows_def by blast
    then show ?thesis
      unfolding c0(2,3,4) .
  qed
  with rows show ?thesis
    unfolding phaseA_rows_def updated(3) by simp
next
  case inserted
  let ?n = "s_next_id st" and ?v = "r_vc_class_id row"
  from rows have n: "next_id S \<le> ?n"
    and pre: "prefix (map frame (asp_classes S)) (map frame (s_classes st))"
    and old: "\<And>c. c \<in> set (s_classes st) \<Longrightarrow>
        (c_id c < next_id S \<longrightarrow> (c_id c, c_vc_class_id c) \<in> set (existingClasses (asp_classes S)))
        \<and> (next_id S \<le> c_id c \<longrightarrow> fresh now c \<and> classIdMap st (c_vc_class_id c) = Some (c_id c))"
    unfolding phaseA_rows_def by blast+
  have "(c_id c < next_id S \<longrightarrow> (c_id c, c_vc_class_id c) \<in> set (existingClasses (asp_classes S)))
      \<and> (next_id S \<le> c_id c \<longrightarrow>
           fresh now c \<and> ((classIdMap st)(?v \<mapsto> ?n)) (c_vc_class_id c) = Some (c_id c))"
    if "c \<in> set (s_classes st @ [insert_class ?n now (classData row)])" for c
  proof (cases "c \<in> set (s_classes st)")
    case True
    show ?thesis
    proof (cases "next_id S \<le> c_id c")
      case le: True
      with old[OF True] have f: "fresh now c" and mm: "classIdMap st (c_vc_class_id c) = Some (c_id c)"
        by simp_all
      from mm inserted(1) have "c_vc_class_id c \<noteq> ?v" by auto
      with f mm le show ?thesis by simp
    next
      case False
      with old[OF True] show ?thesis by simp
    qed
  next
    case False
    with that have "c = insert_class ?n now (classData row)" by simp
    with n show ?thesis by simp
  qed
  with n pre show ?thesis
    unfolding phaseA_rows_def inserted(3) by simp
qed

lemma phaseA_rows_fold:
  "phaseA_inv (asp_classes S) st \<Longrightarrow> phaseA_rows S now st
     \<Longrightarrow> phaseA_rows S now (fold (sync_class flt now) rows st)"
  by (induction rows arbitrary: st) (simp_all add: phaseA_rows_step phaseA_inv_step)

lemma phaseA_rows_initial: "wf_store S \<Longrightarrow> phaseA_rows S now (initial_state S)"
  by (auto simp: phaseA_rows_def wf_store_def initial_state_def pairs_mem)

lemma sync_classes_rows:
  assumes wf: "wf_store S"
  shows "phaseA_rows S now (sync_classes flt now rows S)"
proof -
  let ?A = "fold (sync_class flt now) rows (initial_state S)"
  let ?D = "gone_ids (existingClasses (asp_classes S)) (set (map r_vc_class_id rows))"
  have A: "phaseA_rows S now ?A"
    using phaseA_rows_fold[OF phaseA_inv_initial[OF wf] phaseA_rows_initial[OF wf]] .
  have "(c_id c < next_id S \<longrightarrow> (c_id c, c_vc_class_id c) \<in> set (existingClasses (asp_classes S)))
      \<and> (next_id S \<le> c_id c \<longrightarrow> fresh now c \<and> classIdMap ?A (c_vc_class_id c) = Some (c_id c))"
    if "c \<in> set (deactivate_at ?D (s_classes ?A))" for c
  proof -
    from set_deactivate_at[OF that] obtain c0 where c0: "c0 \<in> set (s_classes ?A)"
      and ceq: "c = (if c_id c0 \<in> ?D then c0\<lparr>c_is_active := False\<rparr> else c0)"
      by blast
    from ceq have e: "c_id c = c_id c0" "c_vc_class_id c = c_vc_class_id c0" "fresh now c = fresh now c0"
      by (simp_all split: if_splits)
    from A c0 show ?thesis
      unfolding phaseA_rows_def e by blast
  qed
  with A show ?thesis
    unfolding phaseA_rows_def sync_classes_eq by simp
qed

lemma idmap_last:
  assumes "j < length cs"
    and "\<forall>k<length cs. j < k \<longrightarrow> c_vc_class_id (cs ! k) \<noteq> c_vc_class_id (cs ! j)"
  shows "idmap cs (c_vc_class_id (cs ! j)) = Some (c_id (cs ! j))"
  using assms
proof (induction cs rule: rev_induct)
  case Nil
  then show ?case by simp
next
  case (snoc x cs)
  show ?case
  proof (cases "j < length cs")
    case True
    from snoc.prems(2)[rule_format, of "length cs"] True
    have "c_vc_class_id ((cs @ [x]) ! length cs) \<noteq> c_vc_class_id ((cs @ [x]) ! j)"
      by simp
    with True have ne: "c_vc_class_id x \<noteq> c_vc_class_id (cs ! j)"
      by (simp add: nth_append)
    have "\<forall>k<length cs. j < k \<longrightarrow> c_vc_class_id (cs ! k) \<noteq> c_vc_class_id (cs ! j)"
    proof (intro allI impI)
      fix k assume k: "k < length cs" "j < k"
      with snoc.prems(2)[rule_format, of k] have "c_vc_class_id ((cs @ [x]) ! k) \<noteq> c_vc_class_id ((cs @ [x]) ! j)"
        by simp
      with k True show "c_vc_class_id (cs ! k) \<noteq> c_vc_class_id (cs ! j)"
        by (simp add: nth_append)
    qed
    with snoc.IH[OF True] have "idmap cs (c_vc_class_id (cs ! j)) = Some (c_id (cs ! j))" by simp
    with True ne show ?thesis by (simp add: nth_append)
  next
    case False
    with snoc.prems(1) have "j = length cs" by simp
    then show ?thesis by simp
  qed
qed

lemma last_row_resolved:
  assumes d: "distinct (map c_id cs)" and m: "idmap cs v = Some i"
    and f: "find (\<lambda>x. r_vc_class_id x = v) (rev rows) = Some r"
  shows "last_row_for (idmap cs) rows i = Some r"
proof -
  from idmap_Some[OF m] obtain c where c: "c \<in> set cs" "c_id c = i" "c_vc_class_id c = v"
    by blast
  have "find (\<lambda>x. idmap cs (r_vc_class_id x) = Some i) (rev rows)
      = find (\<lambda>x. r_vc_class_id x = v) (rev rows)"
  proof (rule find_cong[OF refl])
    fix x
    show "(idmap cs (r_vc_class_id x) = Some i) = (r_vc_class_id x = v)"
      using idmap_target_vc[OF d _ c(1,2), of "r_vc_class_id x"] c(3) m by auto
  qed
  with f show ?thesis
    by (simp add: last_row_for_def)
qed

lemma filter_the_one: "distinct xs \<Longrightarrow> c \<in> set xs \<Longrightarrow> filter (\<lambda>x. x = c) xs = [c]"
proof (induction xs)
  case Nil
  then show ?case by simp
next
  case (Cons a xs)
  show ?case
  proof (cases "a = c")
    case True
    with Cons.prems(1) have "c \<notin> set xs" by simp
    then have "filter (\<lambda>x. x = c) xs = []"
      by (auto simp: filter_empty_conv)
    with True show ?thesis by simp
  next
    case False
    with Cons.prems have "c \<in> set xs" "distinct xs" by simp_all
    from Cons.IH[OF this(2,1)] False show ?thesis by simp
  qed
qed

lemma filter_single:
  assumes "distinct xs" "c \<in> set xs" "P c" "\<forall>x\<in>set xs. P x \<longrightarrow> x = c"
  shows "filter P xs = [c]"
proof -
  have "filter P xs = filter (\<lambda>x. x = c) xs"
  proof (rule filter_cong[OF refl])
    fix x assume "x \<in> set xs"
    with assms(3,4) show "P x = (x = c)" by blast
  qed
  with filter_the_one[OF assms(1,2)] show ?thesis by simp
qed

text \<open>The stored row the map resolves a feed id to carries, in place, the last feed row.\<close>

lemma sync_classes_updated_in_place:
  assumes wf: "wf_store S" and j: "j < length (asp_classes S)"
    and last: "\<forall>k<length (asp_classes S). j < k \<longrightarrow>
                 c_vc_class_id (asp_classes S ! k) \<noteq> c_vc_class_id (asp_classes S ! j)"
    and f: "find (\<lambda>x. r_vc_class_id x = c_vc_class_id (asp_classes S ! j)) (rev cr) = Some r"
  shows "s_classes (sync_classes no_faults now cr S) ! j = update_class (classData r) (asp_classes S ! j)"
proof -
  let ?B = "sync_classes no_faults now cr S"
  let ?old = "asp_classes S ! j"
  let ?new = "s_classes ?B ! j"
  have d: "distinct (map c_id (s_classes ?B))" and m: "classIdMap ?B = idmap (s_classes ?B)"
    and pre: "prefix (existingClasses (asp_classes S)) (existingClasses (s_classes ?B))"
    using sync_classes_inv[OF wf, of no_faults now cr] by simp_all
  have fr: "prefix (map frame (asp_classes S)) (map frame (s_classes ?B))"
    using sync_classes_rows[OF wf, of now no_faults cr] by (simp add: phaseA_rows_def)
  have len: "j < length (s_classes ?B)"
    using prefix_pairs_length[OF pre] j by simp
  have "existingClasses (s_classes ?B) ! j = existingClasses (asp_classes S) ! j"
    using prefix_nth_eq[OF pre] j by (simp add: existingClasses_def)
  with j len have idvc: "c_id ?new = c_id ?old" "c_vc_class_id ?new = c_vc_class_id ?old"
    by (simp_all add: existingClasses_def)
  have "map frame (s_classes ?B) ! j = map frame (asp_classes S) ! j"
    using prefix_nth_eq[OF fr] j by simp
  with j len have frame: "frame ?new = frame ?old" by simp
  have "idmap (asp_classes S) (c_vc_class_id ?old) = Some (c_id ?old)"
    using idmap_last[OF j last] .
  then have "classIdMap (fold (sync_class no_faults now) cr (initial_state S)) (c_vc_class_id ?old)
      = Some (c_id ?old)"
    by (intro fold_sync_class_map_mono) (simp add: initial_state_def idmap_def)
  then have mB: "idmap (s_classes ?B) (c_vc_class_id ?old) = Some (c_id ?old)"
    using m by (simp add: sync_classes_eq)
  have lr: "last_row_for (classIdMap ?B) cr (c_id ?new) = Some r"
    using last_row_resolved[OF d mB f] m idvc by simp
  have "?new \<in> set (s_classes ?B)" using len by simp
  with sync_classes_settled[OF wf, of cr now] lr have "update_class (classData r) ?new = ?new"
    unfolding settled_def by blast
  with frame_eq_update[OF frame, of "classData r"] show ?thesis by simp
qed

text \<open>A feed id that no stored row has gets one row, with the data of the last feed row.\<close>

lemma sync_classes_inserted:
  assumes wf: "wf_store S" and nv: "\<forall>c\<in>set (asp_classes S). c_vc_class_id c \<noteq> v"
    and f: "find (\<lambda>x. r_vc_class_id x = v) (rev cr) = Some r"
  shows "\<exists>i\<ge>next_id S. filter (\<lambda>c. c_vc_class_id c = v) (s_classes (sync_classes no_faults now cr S))
           = [insert_class i now (classData r)]"
proof -
  let ?B = "sync_classes no_faults now cr S"
  have d: "distinct (map c_id (s_classes ?B))" and m: "classIdMap ?B = idmap (s_classes ?B)"
    using sync_classes_inv[OF wf, of no_faults now cr] by simp_all
  have rows: "phaseA_rows S now ?B"
    using sync_classes_rows[OF wf] .
  from f have rin: "r \<in> set cr" and rv: "r_vc_class_id r = v"
    using find_SomeD[of "\<lambda>x. r_vc_class_id x = v" "rev cr" r] by simp_all
  have new: "next_id S \<le> c_id c" if "c \<in> set (s_classes ?B)" "c_vc_class_id c = v" for c
  proof (rule ccontr)
    assume "\<not> next_id S \<le> c_id c"
    with rows that(1) have "(c_id c, c_vc_class_id c) \<in> set (existingClasses (asp_classes S))"
      unfolding phaseA_rows_def by auto
    with that(2) nv show False
      by (auto dest: pairs_memD)
  qed
  from fold_sync_class_resolves[OF rin, of now "initial_state S"] rv
  obtain i where i: "classIdMap ?B v = Some i"
    by (auto simp: sync_classes_eq)
  with m idmap_Some[of "s_classes ?B" v i] obtain c where c: "c \<in> set (s_classes ?B)" "c_id c = i"
    "c_vc_class_id c = v"
    by auto
  have ge: "next_id S \<le> i" using new[OF c(1,3)] c(2) by simp
  with rows c have fc: "fresh now c"
    unfolding phaseA_rows_def by auto
  have lr: "last_row_for (classIdMap ?B) cr (c_id c) = Some r"
    using last_row_resolved[OF d _ f, of i] i m c(2) by simp
  with sync_classes_settled[OF wf, of cr now] c(1) have "update_class (classData r) c = c"
    unfolding settled_def by blast
  with fresh_update_insert[OF fc, of "classData r"] c(2) have ceq: "c = insert_class i now (classData r)"
    by simp
  have uniq: "\<forall>x\<in>set (s_classes ?B). c_vc_class_id x = v \<longrightarrow> x = c"
  proof (intro ballI impI)
    fix x assume x: "x \<in> set (s_classes ?B)" "c_vc_class_id x = v"
    from new[OF x] rows x have "classIdMap ?B (c_vc_class_id x) = Some (c_id x)"
      unfolding phaseA_rows_def by auto
    with x(2) i have "c_id x = c_id c" using c(2) by simp
    with distinct_ids_eq[OF d x(1) c(1)] show "x = c" by simp
  qed
  have dx: "distinct (s_classes ?B)"
    using d by (simp add: distinct_map)
  have "filter (\<lambda>c. c_vc_class_id c = v) (s_classes ?B) = [c]"
    using dx c(1) c(3) uniq by (rule filter_single)
  with ceq ge show ?thesis by blast
qed

text \<open>Every row of the result is a stored row or has an external id of the feed.\<close>

lemma sync_classes_rows_origin:
  assumes wf: "wf_store S" and c: "c \<in> set (s_classes (sync_classes flt now rows S))"
  shows "(c_id c, c_vc_class_id c) \<in> set (existingClasses (asp_classes S))
       \<or> c_vc_class_id c \<in> set (map r_vc_class_id rows)"
proof -
  let ?A = "fold (sync_class flt now) rows (initial_state S)"
  let ?D = "gone_ids (existingClasses (asp_classes S)) (set (map r_vc_class_id rows))"
  have inv: "phaseA_inv (asp_classes S) ?A"
    using phaseA_inv_fold[OF phaseA_inv_initial[OF wf]] .
  from c obtain c0 where c0: "c0 \<in> set (s_classes ?A)"
    and ceq: "c = (if c_id c0 \<in> ?D then c0\<lparr>c_is_active := False\<rparr> else c0)"
    unfolding sync_classes_eq using set_deactivate_at by blast
  from ceq have e: "c_id c = c_id c0" "c_vc_class_id c = c_vc_class_id c0"
    by (simp_all split: if_splits)
  have bq: "bqClassIds ?A = set (map r_vc_class_id rows)"
    by (simp add: initial_state_def)
  from inv c0 have "(c_id c0, c_vc_class_id c0) \<in> set (existingClasses (asp_classes S))
      \<or> c_vc_class_id c0 \<in> bqClassIds ?A"
    unfolding phaseA_inv_def by blast
  then show ?thesis
    unfolding e bq .
qed

lemma initial_state_fields [simp]:
  "s_classes (initial_state S) = asp_classes S"
  "s_enrollments (initial_state S) = asp_enrollments S"
  "s_next_id (initial_state S) = next_id S"
  "bqClassIds (initial_state S) = {}"
  "bqEnrollmentKeys (initial_state S) = {}"
  "errors (initial_state S) = []"
  "classIdMap (initial_state S) = idmap (asp_classes S)"
  by (simp_all add: initial_state_def idmap_def)

lemma run_sync_class_present:
  assumes wf: "wf_store S" and r: "r \<in> set cr"
  shows "\<exists>c\<in>set (s_classes (run_sync no_faults now cr er S)).
           c_vc_class_id c = r_vc_class_id r \<and> c_is_active c
           \<and> (\<exists>r'\<in>set cr. r_vc_class_id r' = r_vc_class_id r \<and> update_class (classData r') c = c)"
proof -
  let ?B = "sync_classes no_faults now cr S"
  have d: "distinct (map c_id (s_classes ?B))" and m: "classIdMap ?B = idmap (s_classes ?B)"
    using sync_classes_inv[OF wf, of no_faults now cr] by simp_all
  from fold_sync_class_resolves[OF r, of now "initial_state S"]
  obtain i where i: "classIdMap ?B (r_vc_class_id r) = Some i"
    by (auto simp: sync_classes_eq)
  with m idmap_Some obtain c where c: "c \<in> set (s_classes ?B)" "c_id c = i"
    "c_vc_class_id c = r_vc_class_id r"
    by metis
  from r i have "\<exists>x\<in>set (rev cr). classIdMap ?B (r_vc_class_id x) = Some i" by auto
  then obtain r' where r': "last_row_for (classIdMap ?B) cr i = Some r'"
    unfolding last_row_for_def by (cases "find (\<lambda>r. classIdMap ?B (r_vc_class_id r) = Some i) (rev cr)")
      (auto simp: find_None_iff)
  then have r'in: "r' \<in> set cr" and r'm: "classIdMap ?B (r_vc_class_id r') = Some i"
    using find_SomeD[of "\<lambda>r. classIdMap ?B (r_vc_class_id r) = Some i" "rev cr" r']
    by (simp_all add: last_row_for_def)
  have v': "r_vc_class_id r' = r_vc_class_id r"
    using idmap_target_vc[OF d _ c(1,2), of "r_vc_class_id r'"] r'm m c(3) by simp
  have u: "update_class (classData r') c = c"
    using sync_classes_settled[OF wf, of cr now] c r' by (simp add: settled_def)
  then have "c_is_active (update_class (classData r') c) = c_is_active c" by simp
  then have "c_is_active c" by simp
  with c u r'in v' show ?thesis
    unfolding run_sync_eq by blast
qed

lemma run_sync_class_gone:
  assumes wf: "wf_store S" and j: "j < length (asp_classes S)"
    and v: "c_vc_class_id (asp_classes S ! j) \<notin> set (map r_vc_class_id cr)"
  shows "s_classes (run_sync flt now cr er S) ! j = (asp_classes S ! j)\<lparr>c_is_active := False\<rparr>"
proof -
  let ?A = "fold (sync_class flt now) cr (initial_state S)"
  have inv: "phaseA_inv (asp_classes S) ?A"
    using phaseA_inv_fold[OF phaseA_inv_initial[OF wf]] .
  have "untouched (asp_classes S) (initial_state S)"
    by (simp add: untouched_def)
  then have "untouched (asp_classes S) ?A"
    using untouched_fold[OF phaseA_inv_initial[OF wf]] by blast
  moreover have "bqClassIds ?A = set (map r_vc_class_id cr)"
    by simp
  ultimately have same: "s_classes ?A ! j = asp_classes S ! j"
    using j v by (simp add: untouched_def)
  have len: "j < length (s_classes ?A)"
    using inv j prefix_pairs_length[of "asp_classes S" "s_classes ?A"] by (simp add: phaseA_inv_def)
  have "(c_id (asp_classes S ! j), c_vc_class_id (asp_classes S ! j)) \<in> set (existingClasses (asp_classes S))"
    using j by (simp add: pairs_mem)
  with v have "c_id (asp_classes S ! j) \<in> gone_ids (existingClasses (asp_classes S)) (set (map r_vc_class_id cr))"
    unfolding gone_ids_def by blast
  with same len show ?thesis
    unfolding run_sync_eq sync_classes_eq by (simp add: deactivate_at_nth)
qed

lemma update_class_explicit:
  "update_class (classData r) c
     = c\<lparr>c_vc_class_id := r_vc_class_id r,
         c_class_name := extractClassName (r_program_name r),
         c_day_of_week := m_day_of_week (parseMeetingTimes (r_meeting_times r)),
         c_start_time := m_start_time (parseMeetingTimes (r_meeting_times r)),
         c_end_time := m_end_time (parseMeetingTimes (r_meeting_times r)),
         c_instructor := (case r_instructor r of None \<Rightarrow> None
                          | Some i \<Rightarrow> if i = [] then None else Some i),
         c_capacity := (case r_capacity r of None \<Rightarrow> None
                        | Some n \<Rightarrow> if n = 0 then None else Some n),
         c_is_active := True\<rparr>"
  by (simp add: update_class_def classData_def Let_def)

lemma insert_class_explicit:
  "insert_class i now (classData r)
     = \<lparr>c_id = i, c_vc_class_id = r_vc_class_id r,
        c_class_name = extractClassName (r_program_name r),
        c_instructor = (case r_instructor r of None \<Rightarrow> None
                        | Some i \<Rightarrow> if i = [] then None else Some i),
        c_room = None,
        c_day_of_week = m_day_of_week (parseMeetingTimes (r_meeting_times r)),
        c_start_time = m_start_time (parseMeetingTimes (r_meeting_times r)),
        c_end_time = m_end_time (parseMeetingTimes (r_meeting_times r)),
        c_semester = None, c_school_year = None, c_min_grade = None, c_max_grade = None,
        c_capacity = (case r_capacity r of None \<Rightarrow> None
                      | Some n \<Rightarrow> if n = 0 then None else Some n),
        c_is_active = True, c_last_vc_sync = None, c_created_at = now\<rparr>"
  by (simp add: insert_class_def classData_def Let_def)

text \<open>
  C5. From a store with unique row ids, after one pass over a store that rejects no write.
  \<^item> Updated in place: a stored row whose external id is in the feed (the last stored row
    with that id, which is the row the pass's map resolves the id to; the only one when
    external ids are unique in the table, as the script's upsert on \<^verbatim>\<open>vc_class_id\<close>
    expects) is, at its place, the row it was with the name, day, times, instructor and
    capacity of the feed row (the last one with that id) and \<^verbatim>\<open>is_active\<close> true; its id and
    its other columns are as they were.
  \<^item> Inserted: an external id of the feed that no stored row has is held by exactly one
    row of the result; its id is new, it carries the data of the feed row, it is active,
    its other columns are empty and it was created at the time of the pass.
  \<^item> Every external id of the feed has an active row.
  \<^item> Deactivated: every stored class whose external id is not in the feed is, at its
    place, the row it was with \<^verbatim>\<open>is_active\<close> false.
  \<^item> No other row: every row of the result has the id and external id of a stored row, or
    an external id of the feed.
  \<^item> Nothing is deleted: the stored rows of both tables keep their places (ids, and for
    classes external ids, are a prefix of the result's).
  \<^item> The set of seen ids is the set of the feed's ids.
\<close>

theorem C5_classes_after_pass:
  assumes wf: "wf_store S"
  shows "(\<forall>j<length (asp_classes S). \<forall>r.
            (\<forall>k<length (asp_classes S). j < k \<longrightarrow>
                c_vc_class_id (asp_classes S ! k) \<noteq> c_vc_class_id (asp_classes S ! j))
            \<and> find (\<lambda>x. r_vc_class_id x = c_vc_class_id (asp_classes S ! j)) (rev cr) = Some r \<longrightarrow>
            asp_classes (fst (POST no_faults now el (Some (cr, er)) S)) ! j
              = (asp_classes S ! j)
                  \<lparr>c_class_name := extractClassName (r_program_name r),
                   c_day_of_week := m_day_of_week (parseMeetingTimes (r_meeting_times r)),
                   c_start_time := m_start_time (parseMeetingTimes (r_meeting_times r)),
                   c_end_time := m_end_time (parseMeetingTimes (r_meeting_times r)),
                   c_instructor := (case r_instructor r of None \<Rightarrow> None
                                    | Some i \<Rightarrow> if i = [] then None else Some i),
                   c_capacity := (case r_capacity r of None \<Rightarrow> None
                                  | Some n \<Rightarrow> if n = 0 then None else Some n),
                   c_is_active := True\<rparr>)
       \<and> (\<forall>v r. (\<forall>c\<in>set (asp_classes S). c_vc_class_id c \<noteq> v)
                 \<and> find (\<lambda>x. r_vc_class_id x = v) (rev cr) = Some r \<longrightarrow>
            (\<exists>i\<ge>next_id S.
               filter (\<lambda>c. c_vc_class_id c = v)
                 (asp_classes (fst (POST no_faults now el (Some (cr, er)) S)))
               = [\<lparr>c_id = i, c_vc_class_id = v,
                   c_class_name = extractClassName (r_program_name r),
                   c_instructor = (case r_instructor r of None \<Rightarrow> None
                                   | Some i \<Rightarrow> if i = [] then None else Some i),
                   c_room = None,
                   c_day_of_week = m_day_of_week (parseMeetingTimes (r_meeting_times r)),
                   c_start_time = m_start_time (parseMeetingTimes (r_meeting_times r)),
                   c_end_time = m_end_time (parseMeetingTimes (r_meeting_times r)),
                   c_semester = None, c_school_year = None, c_min_grade = None,
                   c_max_grade = None,
                   c_capacity = (case r_capacity r of None \<Rightarrow> None
                                 | Some n \<Rightarrow> if n = 0 then None else Some n),
                   c_is_active = True, c_last_vc_sync = None, c_created_at = now\<rparr>]))
       \<and> (\<forall>r\<in>set cr. \<exists>c\<in>set (asp_classes (fst (POST no_faults now el (Some (cr, er)) S))).
            c_vc_class_id c = r_vc_class_id r \<and> c_is_active c)
       \<and> (\<forall>j<length (asp_classes S).
            c_vc_class_id (asp_classes S ! j) \<notin> set (map r_vc_class_id cr) \<longrightarrow>
            asp_classes (fst (POST no_faults now el (Some (cr, er)) S)) ! j
              = (asp_classes S ! j)\<lparr>c_is_active := False\<rparr>)
       \<and> (\<forall>c\<in>set (asp_classes (fst (POST no_faults now el (Some (cr, er)) S))).
            (c_id c, c_vc_class_id c) \<in> set (existingClasses (asp_classes S))
            \<or> c_vc_class_id c \<in> set (map r_vc_class_id cr))
       \<and> prefix (existingClasses (asp_classes S))
            (existingClasses (asp_classes (fst (POST no_faults now el (Some (cr, er)) S))))
       \<and> prefix (map e_id (asp_enrollments S))
            (map e_id (asp_enrollments (fst (POST no_faults now el (Some (cr, er)) S))))
       \<and> bqClassIds (run_sync no_faults now cr er S) = set (map r_vc_class_id cr)"
proof -
  let ?P = "asp_classes (fst (POST no_faults now el (Some (cr, er)) S))"
  have P: "?P = s_classes (sync_classes no_faults now cr S)"
    unfolding POST_Some by (simp add: store_after_fields run_sync_eq)
  have 1: "?P ! j
              = (asp_classes S ! j)
                  \<lparr>c_class_name := extractClassName (r_program_name r),
                   c_day_of_week := m_day_of_week (parseMeetingTimes (r_meeting_times r)),
                   c_start_time := m_start_time (parseMeetingTimes (r_meeting_times r)),
                   c_end_time := m_end_time (parseMeetingTimes (r_meeting_times r)),
                   c_instructor := (case r_instructor r of None \<Rightarrow> None
                                    | Some i \<Rightarrow> if i = [] then None else Some i),
                   c_capacity := (case r_capacity r of None \<Rightarrow> None
                                  | Some n \<Rightarrow> if n = 0 then None else Some n),
                   c_is_active := True\<rparr>"
    if j: "j < length (asp_classes S)"
      and h: "(\<forall>k<length (asp_classes S). j < k \<longrightarrow>
                c_vc_class_id (asp_classes S ! k) \<noteq> c_vc_class_id (asp_classes S ! j))
            \<and> find (\<lambda>x. r_vc_class_id x = c_vc_class_id (asp_classes S ! j)) (rev cr) = Some r"
    for j r
  proof -
    from h have last: "\<forall>k<length (asp_classes S). j < k \<longrightarrow>
                c_vc_class_id (asp_classes S ! k) \<noteq> c_vc_class_id (asp_classes S ! j)"
      and f: "find (\<lambda>x. r_vc_class_id x = c_vc_class_id (asp_classes S ! j)) (rev cr) = Some r"
      by blast+
    from f have rv: "r_vc_class_id r = c_vc_class_id (asp_classes S ! j)"
      using find_SomeD[of "\<lambda>x. r_vc_class_id x = c_vc_class_id (asp_classes S ! j)" "rev cr" r]
      by simp
    have "?P ! j = update_class (classData r) (asp_classes S ! j)"
      unfolding P using wf j last f by (rule sync_classes_updated_in_place)
    then show ?thesis
      unfolding update_class_explicit rv by simp
  qed
  have 2: "\<exists>i\<ge>next_id S.
               filter (\<lambda>c. c_vc_class_id c = v) ?P
               = [\<lparr>c_id = i, c_vc_class_id = v,
                   c_class_name = extractClassName (r_program_name r),
                   c_instructor = (case r_instructor r of None \<Rightarrow> None
                                   | Some i \<Rightarrow> if i = [] then None else Some i),
                   c_room = None,
                   c_day_of_week = m_day_of_week (parseMeetingTimes (r_meeting_times r)),
                   c_start_time = m_start_time (parseMeetingTimes (r_meeting_times r)),
                   c_end_time = m_end_time (parseMeetingTimes (r_meeting_times r)),
                   c_semester = None, c_school_year = None, c_min_grade = None,
                   c_max_grade = None,
                   c_capacity = (case r_capacity r of None \<Rightarrow> None
                                 | Some n \<Rightarrow> if n = 0 then None else Some n),
                   c_is_active = True, c_last_vc_sync = None, c_created_at = now\<rparr>]"
    if h: "(\<forall>c\<in>set (asp_classes S). c_vc_class_id c \<noteq> v)
                 \<and> find (\<lambda>x. r_vc_class_id x = v) (rev cr) = Some r"
    for v r
  proof -
    from h have nv: "\<forall>c\<in>set (asp_classes S). c_vc_class_id c \<noteq> v"
      and f: "find (\<lambda>x. r_vc_class_id x = v) (rev cr) = Some r"
      by blast+
    from f have rv: "r_vc_class_id r = v"
      using find_SomeD[of "\<lambda>x. r_vc_class_id x = v" "rev cr" r] by simp
    from sync_classes_inserted[OF wf nv f, of now] show ?thesis
      unfolding P insert_class_explicit rv .
  qed
  have 3: "\<exists>c\<in>set ?P. c_vc_class_id c = r_vc_class_id r \<and> c_is_active c" if "r \<in> set cr" for r
    using run_sync_class_present[OF wf that, of now er] unfolding P run_sync_eq by blast
  have 4: "?P ! j = (asp_classes S ! j)\<lparr>c_is_active := False\<rparr>"
    if "j < length (asp_classes S)" "c_vc_class_id (asp_classes S ! j) \<notin> set (map r_vc_class_id cr)"
    for j
    using run_sync_class_gone[OF wf that, of no_faults now er] unfolding P run_sync_eq .
  have 5: "(c_id c, c_vc_class_id c) \<in> set (existingClasses (asp_classes S))
            \<or> c_vc_class_id c \<in> set (map r_vc_class_id cr)" if "c \<in> set ?P" for c
    using sync_classes_rows_origin[OF wf, of c no_faults now cr] that unfolding P .
  have 6: "prefix (existingClasses (asp_classes S)) (existingClasses ?P)"
    unfolding P using sync_classes_inv(4)[OF wf, of no_faults now cr] .
  have 7: "prefix (map e_id (asp_enrollments S))
            (map e_id (asp_enrollments (fst (POST no_faults now el (Some (cr, er)) S))))"
    unfolding POST_Some store_after_fields
    using run_sync_enrollment_ids(3)[OF wf, of no_faults now cr er] .
  have 8: "bqClassIds (run_sync no_faults now cr er S) = set (map r_vc_class_id cr)"
    by (rule run_sync_eq(3))
  show ?thesis
    using 1 2 3 4 5 6 7 8 by (intro conjI allI impI ballI) blast+
qed

theorem C5_classes_after_pass_witness:
  "wf_store stale_store
   \<and> asp_classes (fst (POST no_faults 100 5 (Some (scenario_classRows, scenario_enrollmentRows))
        stale_store))
     = [\<lparr>c_id = 1, c_vc_class_id = ''C1'', c_class_name = ''Art'', c_instructor = Some ''Lee'',
         c_room = Some ''Gym'', c_day_of_week = ''Monday'', c_start_time = Some ''15:45:00'',
         c_end_time = Some ''17:00:00'', c_semester = None, c_school_year = None,
         c_min_grade = None, c_max_grade = None, c_capacity = Some 12, c_is_active = True,
         c_last_vc_sync = None, c_created_at = 7\<rparr>,
        \<lparr>c_id = 2, c_vc_class_id = ''C3'', c_class_name = ''Chess'', c_instructor = Some ''Kim'',
         c_room = None, c_day_of_week = ''Monday'', c_start_time = Some ''16:00:00'',
         c_end_time = None, c_semester = None, c_school_year = None,
         c_min_grade = None, c_max_grade = None, c_capacity = None, c_is_active = False,
         c_last_vc_sync = None, c_created_at = 0\<rparr>,
        \<lparr>c_id = 6, c_vc_class_id = ''C2'', c_class_name = ''Band'', c_instructor = None,
         c_room = None, c_day_of_week = ''Tuesday'', c_start_time = Some ''15:45:00'',
         c_end_time = Some ''16:30:00'', c_semester = None, c_school_year = None,
         c_min_grade = None, c_max_grade = None, c_capacity = None, c_is_active = True,
         c_last_vc_sync = None, c_created_at = 100\<rparr>]
   \<and> asp_classes (fst (POST no_faults 100 5 (Some (scenario_classRows, scenario_enrollmentRows))
        stale_store)) ! 0
     = (asp_classes stale_store ! 0)
         \<lparr>c_class_name := ''Art'', c_day_of_week := ''Monday'', c_start_time := Some ''15:45:00'',
          c_end_time := Some ''17:00:00'', c_instructor := Some ''Lee'', c_capacity := Some 12,
          c_is_active := True\<rparr>
   \<and> (\<exists>i\<ge>next_id stale_store.
        filter (\<lambda>c. c_vc_class_id c = ''C2'')
          (asp_classes (fst (POST no_faults 100 5 (Some (scenario_classRows, scenario_enrollmentRows))
             stale_store)))
        = [\<lparr>c_id = i, c_vc_class_id = ''C2'', c_class_name = ''Band'', c_instructor = None,
            c_room = None, c_day_of_week = ''Tuesday'', c_start_time = Some ''15:45:00'',
            c_end_time = Some ''16:30:00'', c_semester = None, c_school_year = None,
            c_min_grade = None, c_max_grade = None, c_capacity = None, c_is_active = True,
            c_last_vc_sync = None, c_created_at = 100\<rparr>])
   \<and> asp_classes (fst (POST no_faults 100 5 (Some (scenario_classRows, scenario_enrollmentRows))
           stale_store)) ! 1
       = (asp_classes stale_store ! 1)\<lparr>c_is_active := False\<rparr>
   \<and> bqClassIds (run_sync no_faults 100 scenario_classRows scenario_enrollmentRows stale_store)
       = {''C1'', ''C2''}"
proof -
  have wf: "wf_store stale_store"
    by (simp add: wf_store_def stale_store_def scenario_store_def blank_class_def
        blank_enrollment_def)
  note t = C5_classes_after_pass[OF wf, of scenario_classRows 100 5 scenario_enrollmentRows]
  have len: "length (asp_classes stale_store) = 2"
    by (simp add: stale_store_def)
  have j0: "0 < length (asp_classes stale_store)"
    "\<forall>k<length (asp_classes stale_store). 0 < k \<longrightarrow>
       c_vc_class_id (asp_classes stale_store ! k) \<noteq> c_vc_class_id (asp_classes stale_store ! 0)"
    "find (\<lambda>x. r_vc_class_id x = c_vc_class_id (asp_classes stale_store ! 0)) (rev scenario_classRows)
       = Some (scenario_classRows ! 0)"
    unfolding len
    by (simp_all add: stale_store_def scenario_classRows_def blank_class_def less_Suc_eq
        numeral_2_eq_2)
  have v2: "\<forall>c\<in>set (asp_classes stale_store). c_vc_class_id c \<noteq> ''C2''"
    "find (\<lambda>x. r_vc_class_id x = ''C2'') (rev scenario_classRows) = Some (scenario_classRows ! 1)"
    by (simp_all add: stale_store_def scenario_classRows_def blank_class_def)
  have j1: "1 < length (asp_classes stale_store)"
    "c_vc_class_id (asp_classes stale_store ! 1) \<notin> set (map r_vc_class_id scenario_classRows)"
    by (simp_all add: stale_store_def scenario_classRows_def blank_class_def)
  have rows: "extractClassName (r_program_name (scenario_classRows ! 0)) = ''Art''"
    "parseMeetingTimes (r_meeting_times (scenario_classRows ! 0))
       = \<lparr>m_day_of_week = ''Monday'', m_start_time = Some ''15:45:00'', m_end_time = Some ''17:00:00''\<rparr>"
    "r_instructor (scenario_classRows ! 0) = Some ''Lee''"
    "r_capacity (scenario_classRows ! 0) = Some 12"
    "extractClassName (r_program_name (scenario_classRows ! 1)) = ''Band''"
    "parseMeetingTimes (r_meeting_times (scenario_classRows ! 1))
       = \<lparr>m_day_of_week = ''Tuesday'', m_start_time = Some ''15:45:00'', m_end_time = Some ''16:30:00''\<rparr>"
    "r_instructor (scenario_classRows ! 1) = None"
    "r_capacity (scenario_classRows ! 1) = None"
    by code_simp+
  from t j0 have a: "asp_classes (fst (POST no_faults 100 5
        (Some (scenario_classRows, scenario_enrollmentRows)) stale_store)) ! 0
       = (asp_classes stale_store ! 0)
           \<lparr>c_class_name := extractClassName (r_program_name (scenario_classRows ! 0)),
            c_day_of_week := m_day_of_week (parseMeetingTimes (r_meeting_times (scenario_classRows ! 0))),
            c_start_time := m_start_time (parseMeetingTimes (r_meeting_times (scenario_classRows ! 0))),
            c_end_time := m_end_time (parseMeetingTimes (r_meeting_times (scenario_classRows ! 0))),
            c_instructor := (case r_instructor (scenario_classRows ! 0) of None \<Rightarrow> None
                             | Some i \<Rightarrow> if i = [] then None else Some i),
            c_capacity := (case r_capacity (scenario_classRows ! 0) of None \<Rightarrow> None
                           | Some n \<Rightarrow> if n = 0 then None else Some n),
            c_is_active := True\<rparr>"
    by blast
  from t v2 have c: "\<exists>i\<ge>next_id stale_store.
        filter (\<lambda>c. c_vc_class_id c = ''C2'')
          (asp_classes (fst (POST no_faults 100 5 (Some (scenario_classRows, scenario_enrollmentRows))
             stale_store)))
        = [\<lparr>c_id = i, c_vc_class_id = ''C2'',
            c_class_name = extractClassName (r_program_name (scenario_classRows ! 1)),
            c_instructor = (case r_instructor (scenario_classRows ! 1) of None \<Rightarrow> None
                            | Some i \<Rightarrow> if i = [] then None else Some i),
            c_room = None,
            c_day_of_week = m_day_of_week (parseMeetingTimes (r_meeting_times (scenario_classRows ! 1))),
            c_start_time = m_start_time (parseMeetingTimes (r_meeting_times (scenario_classRows ! 1))),
            c_end_time = m_end_time (parseMeetingTimes (r_meeting_times (scenario_classRows ! 1))),
            c_semester = None, c_school_year = None, c_min_grade = None, c_max_grade = None,
            c_capacity = (case r_capacity (scenario_classRows ! 1) of None \<Rightarrow> None
                          | Some n \<Rightarrow> if n = 0 then None else Some n),
            c_is_active = True, c_last_vc_sync = None, c_created_at = 100\<rparr>]"
    by blast
  from t j1 have b: "asp_classes (fst (POST no_faults 100 5
        (Some (scenario_classRows, scenario_enrollmentRows)) stale_store)) ! 1
       = (asp_classes stale_store ! 1)\<lparr>c_is_active := False\<rparr>"
    by blast
  from t have d: "bqClassIds (run_sync no_faults 100 scenario_classRows scenario_enrollmentRows
        stale_store) = set (map r_vc_class_id scenario_classRows)"
    by blast
  have s: "set (map r_vc_class_id scenario_classRows) = {''C1'', ''C2''}"
    by (simp add: scenario_classRows_def)
  have e: "asp_classes (fst (POST no_faults 100 5 (Some (scenario_classRows, scenario_enrollmentRows))
        stale_store))
     = [\<lparr>c_id = 1, c_vc_class_id = ''C1'', c_class_name = ''Art'', c_instructor = Some ''Lee'',
         c_room = Some ''Gym'', c_day_of_week = ''Monday'', c_start_time = Some ''15:45:00'',
         c_end_time = Some ''17:00:00'', c_semester = None, c_school_year = None,
         c_min_grade = None, c_max_grade = None, c_capacity = Some 12, c_is_active = True,
         c_last_vc_sync = None, c_created_at = 7\<rparr>,
        \<lparr>c_id = 2, c_vc_class_id = ''C3'', c_class_name = ''Chess'', c_instructor = Some ''Kim'',
         c_room = None, c_day_of_week = ''Monday'', c_start_time = Some ''16:00:00'',
         c_end_time = None, c_semester = None, c_school_year = None,
         c_min_grade = None, c_max_grade = None, c_capacity = None, c_is_active = False,
         c_last_vc_sync = None, c_created_at = 0\<rparr>,
        \<lparr>c_id = 6, c_vc_class_id = ''C2'', c_class_name = ''Band'', c_instructor = None,
         c_room = None, c_day_of_week = ''Tuesday'', c_start_time = Some ''15:45:00'',
         c_end_time = Some ''16:30:00'', c_semester = None, c_school_year = None,
         c_min_grade = None, c_max_grade = None, c_capacity = None, c_is_active = True,
         c_last_vc_sync = None, c_created_at = 100\<rparr>]"
    by code_simp
  show ?thesis
    using wf a b c d e unfolding s rows by simp
qed

subsection \<open>Claims C4 and C2: enrollments the feed does not name\<close>

lemma run_sync_untouched:
  assumes wf: "wf_store S" and j: "j < length (asp_enrollments S)"
    and k: "key_of (asp_enrollments S ! j) \<notin> bqEnrollmentKeys (run_sync flt now cr er S)"
  shows "s_enrollments (fold (sync_enrollment flt now) er (sync_classes flt now cr S)) ! j
           = asp_enrollments S ! j"
    and "j < length (s_enrollments (fold (sync_enrollment flt now) er (sync_classes flt now cr S)))"
proof -
  let ?B = "sync_classes flt now cr S"
  let ?C = "fold (sync_enrollment flt now) er ?B"
  have invB: "phaseC_inv (asp_enrollments S) ?B"
    by (rule phaseC_inv_after_classes[OF wf])
  have "e_untouched (asp_enrollments S) ?B"
    by (simp add: e_untouched_def sync_classes_eq)
  then have u: "e_untouched (asp_enrollments S) ?C"
    using e_untouched_fold[OF invB] by blast
  have keys: "bqEnrollmentKeys (run_sync flt now cr er S) = bqEnrollmentKeys ?C"
    by (simp add: run_sync_def sync_enrollments_def Let_def)
  from u j k show "s_enrollments ?C ! j = asp_enrollments S ! j"
    unfolding keys by (simp add: e_untouched_def)
  show "j < length (s_enrollments ?C)"
    using phaseC_inv_length[OF phaseC_inv_fold[OF invB], of flt now er] j by simp
qed

lemma run_sync_removed:
  assumes wf: "wf_store S" and j: "j < length (asp_enrollments S)"
    and a: "e_source (asp_enrollments S ! j) = ''veracross''" "e_status (asp_enrollments S ! j) = ''active''"
    and k: "key_of (asp_enrollments S ! j) \<notin> bqEnrollmentKeys (run_sync flt now cr er S)"
  shows "s_enrollments (run_sync flt now cr er S) ! j = deactivate_row (asp_enrollments S ! j)"
proof -
  let ?C = "fold (sync_enrollment flt now) er (sync_classes flt now cr S)"
  note u = run_sync_untouched[OF wf j k]
  have keys: "bqEnrollmentKeys (run_sync flt now cr er S) = bqEnrollmentKeys ?C"
    by (simp add: run_sync_def sync_enrollments_def Let_def)
  have "s_enrollments ?C ! j \<in> set (s_enrollments ?C)"
    using u(2) by simp
  with a k have "e_id (asp_enrollments S ! j)
      \<in> stale_ids (existingEnrollments (s_enrollments ?C)) (bqEnrollmentKeys ?C)"
    unfolding stale_ids_selected keys u(1) by blast
  then show ?thesis
    unfolding run_sync_def sync_enrollments_eq using u by (simp add: deactivate_rows_nth)
qed

lemma run_sync_manual_kept:
  assumes wf: "wf_store S" and j: "j < length (asp_enrollments S)"
    and a: "e_source (asp_enrollments S ! j) \<noteq> ''veracross''"
    and k: "key_of (asp_enrollments S ! j) \<notin> bqEnrollmentKeys (run_sync flt now cr er S)"
  shows "s_enrollments (run_sync flt now cr er S) ! j = asp_enrollments S ! j"
proof -
  let ?C = "fold (sync_enrollment flt now) er (sync_classes flt now cr S)"
  note u = run_sync_untouched[OF wf j k]
  have d: "distinct (map e_id (s_enrollments ?C))"
    using phaseC_inv_fold[OF phaseC_inv_after_classes[OF wf], of flt now er flt now cr]
    by (simp add: phaseC_inv_def)
  have mem: "s_enrollments ?C ! j \<in> set (s_enrollments ?C)"
    using u(2) by simp
  have "e_id (s_enrollments ?C ! j)
      \<notin> stale_ids (existingEnrollments (s_enrollments ?C)) (bqEnrollmentKeys ?C)"
  proof
    assume "e_id (s_enrollments ?C ! j)
      \<in> stale_ids (existingEnrollments (s_enrollments ?C)) (bqEnrollmentKeys ?C)"
    then obtain e where "e \<in> set (s_enrollments ?C)" "e_id e = e_id (s_enrollments ?C ! j)"
      "e_source e = ''veracross''"
      unfolding stale_ids_selected by auto
    with distinct_e_ids_eq[OF d mem, of e] a u(1) show False by auto
  qed
  then show ?thesis
    unfolding run_sync_def sync_enrollments_eq using u by (simp add: deactivate_rows_nth)
qed

text \<open>Step 6 alone: whatever the keys of the feed, a row that the sync does not own stays.\<close>

lemma deactivation_keeps_manual:
  assumes d: "distinct (map e_id (s_enrollments st))" and j: "j < length (s_enrollments st)"
    and a: "e_source (s_enrollments st ! j) \<noteq> ''veracross''"
  shows "s_enrollments (fold deactivate_enrollment (existingEnrollments (s_enrollments st)) st) ! j
           = s_enrollments st ! j"
proof -
  have mem: "s_enrollments st ! j \<in> set (s_enrollments st)"
    using j by simp
  have "e_id (s_enrollments st ! j)
      \<notin> stale_ids (existingEnrollments (s_enrollments st)) (bqEnrollmentKeys st)"
  proof
    assume "e_id (s_enrollments st ! j)
      \<in> stale_ids (existingEnrollments (s_enrollments st)) (bqEnrollmentKeys st)"
    then obtain e where "e \<in> set (s_enrollments st)" "e_id e = e_id (s_enrollments st ! j)"
      "e_source e = ''veracross''"
      unfolding stale_ids_selected by auto
    with distinct_e_ids_eq[OF d mem, of e] a show False by auto
  qed
  then show ?thesis
    using j by (simp add: fold_deactivate_enrollment_rows deactivate_rows_nth)
qed

text \<open>
  C4 (as amended). When a pass finds an active enrollment of the sync whose key is not
  among the keys of this pass's feed, it takes the row out of the active rows (its status
  is no longer \<^verbatim>\<open>active\<close>) and sets its removal reason to \<^verbatim>\<open>Removed from Veracross\<close>; every
  other field of the row, its provenance among them, is as it was. This holds whatever
  writes the store rejects.
\<close>

theorem C4_vanished_enrollment_is_retired:
  assumes "wf_store S" and "j < length (asp_enrollments S)"
    and "e_source (asp_enrollments S ! j) = ''veracross''"
    and "e_status (asp_enrollments S ! j) = ''active''"
    and "key_of (asp_enrollments S ! j) \<notin> bqEnrollmentKeys (run_sync flt now cr er S)"
  shows "e_removal_reason (asp_enrollments (fst (POST flt now el (Some (cr, er)) S)) ! j)
           = Some ''Removed from Veracross''
       \<and> e_status (asp_enrollments (fst (POST flt now el (Some (cr, er)) S)) ! j) \<noteq> ''active''
       \<and> (asp_enrollments (fst (POST flt now el (Some (cr, er)) S)) ! j)
            \<lparr>e_status := e_status (asp_enrollments S ! j),
             e_removal_reason := e_removal_reason (asp_enrollments S ! j)\<rparr>
           = asp_enrollments S ! j"
  unfolding POST_Some store_after_fields run_sync_removed[OF assms]
  by (simp add: deactivate_row_def)

theorem C4_vanished_enrollment_is_retired_witness:
  "wf_store scenario_store \<and> 1 < length (asp_enrollments scenario_store)
   \<and> e_source (asp_enrollments scenario_store ! 1) = ''veracross''
   \<and> e_status (asp_enrollments scenario_store ! 1) = ''active''
   \<and> key_of (asp_enrollments scenario_store ! 1)
        \<notin> bqEnrollmentKeys (run_sync no_faults 100 scenario_classRows scenario_enrollmentRows scenario_store)
   \<and> e_removal_reason (asp_enrollments (fst (POST no_faults 100 5
          (Some (scenario_classRows, scenario_enrollmentRows)) scenario_store)) ! 1)
        = Some ''Removed from Veracross''
   \<and> e_status (asp_enrollments (fst (POST no_faults 100 5
          (Some (scenario_classRows, scenario_enrollmentRows)) scenario_store)) ! 1) \<noteq> ''active''
   \<and> (asp_enrollments (fst (POST no_faults 100 5
          (Some (scenario_classRows, scenario_enrollmentRows)) scenario_store)) ! 1)
          \<lparr>e_status := e_status (asp_enrollments scenario_store ! 1),
           e_removal_reason := e_removal_reason (asp_enrollments scenario_store ! 1)\<rparr>
        = asp_enrollments scenario_store ! 1"
proof -
  have wf: "wf_store scenario_store"
    by (simp add: wf_store_def scenario_store_def blank_class_def blank_enrollment_def)
  have h: "1 < length (asp_enrollments scenario_store)"
    "e_source (asp_enrollments scenario_store ! 1) = ''veracross''"
    "e_status (asp_enrollments scenario_store ! 1) = ''active''"
    by (simp_all add: scenario_store_def blank_enrollment_def)
  have k: "key_of (asp_enrollments scenario_store ! 1)
        \<notin> bqEnrollmentKeys (run_sync no_faults 100 scenario_classRows scenario_enrollmentRows scenario_store)"
    by code_simp
  from C4_vanished_enrollment_is_retired[OF wf h k, of 5] wf h k show ?thesis
    by blast
qed

text \<open>
  C4 as stated fails on the two values written: the status is \<^verbatim>\<open>inactive\<close>, not
  \<^verbatim>\<open>removed\<close>, and the reason is \<^verbatim>\<open>Removed from Veracross\<close>.
\<close>

theorem C4_counterexample:
  "e_source (asp_enrollments scenario_store ! 1) = ''veracross''
   \<and> e_status (asp_enrollments scenario_store ! 1) = ''active''
   \<and> key_of (asp_enrollments scenario_store ! 1)
        \<notin> bqEnrollmentKeys (run_sync no_faults 100 scenario_classRows scenario_enrollmentRows scenario_store)
   \<and> e_status (asp_enrollments (fst (POST no_faults 100 5
          (Some (scenario_classRows, scenario_enrollmentRows)) scenario_store)) ! 1) = ''inactive''
   \<and> e_status (asp_enrollments (fst (POST no_faults 100 5
          (Some (scenario_classRows, scenario_enrollmentRows)) scenario_store)) ! 1) \<noteq> ''removed''
   \<and> e_removal_reason (asp_enrollments (fst (POST no_faults 100 5
          (Some (scenario_classRows, scenario_enrollmentRows)) scenario_store)) ! 1)
        \<noteq> Some ''source record no longer present''"
  by code_simp

text \<open>
  C2 (as amended). A manual enrollment whose key is not among the keys of this pass's feed
  comes out of the pass with every field as it was, whatever the feed holds otherwise and
  whatever writes the store rejects; and the deactivation of step 6, which selects rows
  with \<^verbatim>\<open>source = 'veracross'\<close> only, leaves every manual row as it was, whatever its key.
\<close>

theorem C2_manual_rows_outside_the_feed_are_kept:
  assumes "wf_store S" and "j < length (asp_enrollments S)"
    and "e_source (asp_enrollments S ! j) = ''manual''"
    and "key_of (asp_enrollments S ! j) \<notin> bqEnrollmentKeys (run_sync flt now cr er S)"
  shows "asp_enrollments (fst (POST flt now el (Some (cr, er)) S)) ! j = asp_enrollments S ! j
       \<and> (distinct (map e_id (s_enrollments st)) \<and> i < length (s_enrollments st)
            \<and> e_source (s_enrollments st ! i) = ''manual'' \<longrightarrow>
          s_enrollments (fold deactivate_enrollment (existingEnrollments (s_enrollments st)) st) ! i
            = s_enrollments st ! i)"
proof -
  from assms(3) have "e_source (asp_enrollments S ! j) \<noteq> ''veracross''" by simp
  from run_sync_manual_kept[OF assms(1,2) this assms(4)]
  have "asp_enrollments (fst (POST flt now el (Some (cr, er)) S)) ! j = asp_enrollments S ! j"
    by (simp add: POST_Some store_after_fields)
  moreover have "s_enrollments (fold deactivate_enrollment (existingEnrollments (s_enrollments st)) st) ! i
            = s_enrollments st ! i"
    if "distinct (map e_id (s_enrollments st))" "i < length (s_enrollments st)"
      "e_source (s_enrollments st ! i) = ''manual''"
    using deactivation_keeps_manual[OF that(1,2)] that(3) by simp
  ultimately show ?thesis by blast
qed

theorem C2_manual_rows_outside_the_feed_are_kept_witness:
  "wf_store scenario_store \<and> 2 < length (asp_enrollments scenario_store)
   \<and> e_source (asp_enrollments scenario_store ! 2) = ''manual''
   \<and> key_of (asp_enrollments scenario_store ! 2)
        \<notin> bqEnrollmentKeys (run_sync no_faults 100 scenario_classRows scenario_enrollmentRows scenario_store)
   \<and> asp_enrollments (fst (POST no_faults 100 5
          (Some (scenario_classRows, scenario_enrollmentRows)) scenario_store)) ! 2
        = asp_enrollments scenario_store ! 2
   \<and> distinct (map e_id (s_enrollments (initial_state scenario_store)))
   \<and> s_enrollments (fold deactivate_enrollment
          (existingEnrollments (s_enrollments (initial_state scenario_store)))
          (initial_state scenario_store)) ! 2
        = s_enrollments (initial_state scenario_store) ! 2"
proof -
  have wf: "wf_store scenario_store"
    by (simp add: wf_store_def scenario_store_def blank_class_def blank_enrollment_def)
  have h: "2 < length (asp_enrollments scenario_store)"
    "e_source (asp_enrollments scenario_store ! 2) = ''manual''"
    by (simp_all add: scenario_store_def blank_enrollment_def)
  have k: "key_of (asp_enrollments scenario_store ! 2)
        \<notin> bqEnrollmentKeys (run_sync no_faults 100 scenario_classRows scenario_enrollmentRows scenario_store)"
    by code_simp
  have g: "distinct (map e_id (s_enrollments (initial_state scenario_store)))"
    "2 < length (s_enrollments (initial_state scenario_store))"
    "e_source (s_enrollments (initial_state scenario_store) ! 2) = ''manual''"
    by (simp_all add: scenario_store_def blank_enrollment_def)
  from C2_manual_rows_outside_the_feed_are_kept[OF wf h k, of 5 "initial_state scenario_store" 2]
    wf h k g
  show ?thesis by blast
qed

text \<open>
  C2 as stated fails: the upsert of step 5 conflicts on (class, student) alone, so a manual
  row whose pair the feed names is written over (here it becomes a row of the sync with
  type \<^verbatim>\<open>enrolled\<close>), and no second row is created beside it.
\<close>

theorem C2_counterexample:
  "e_source (asp_enrollments scenario_store ! 2) = ''manual''
   \<and> e_enrollment_type (asp_enrollments scenario_store ! 2) = Some ''trial''
   \<and> e_source (asp_enrollments (fst (POST no_faults 100 5
        (Some (scenario_classRows,
               [\<lparr>q_vc_class_id = ''C1'', q_student_person_id = 9,
                 q_enrollment_status = Some ''Enrolled''\<rparr>])) scenario_store)) ! 2) = ''veracross''
   \<and> e_enrollment_type (asp_enrollments (fst (POST no_faults 100 5
        (Some (scenario_classRows,
               [\<lparr>q_vc_class_id = ''C1'', q_student_person_id = 9,
                 q_enrollment_status = Some ''Enrolled''\<rparr>])) scenario_store)) ! 2) = Some ''enrolled''
   \<and> length (asp_enrollments (fst (POST no_faults 100 5
        (Some (scenario_classRows,
               [\<lparr>q_vc_class_id = ''C1'', q_student_person_id = 9,
                 q_enrollment_status = Some ''Enrolled''\<rparr>])) scenario_store))) = 3"
  by code_simp

subsection \<open>Claim C6: a feed enrollment that names an unknown class\<close>

lemma fold_sync_class_errors:
  "errors (fold (sync_class no_faults now) rows st) = errors st"
proof (induction rows arbitrary: st)
  case Nil
  then show ?case by simp
next
  case (Cons r rows)
  have "errors (sync_class no_faults now r st) = errors st"
    by (cases rule: sync_class_cases[of st r no_faults now]) (simp_all add: no_faults_def)
  with Cons.IH[of "sync_class no_faults now r st"] show ?case by simp
qed

lemma fold_sync_enrollment_errors:
  "errors (fold (sync_enrollment no_faults now) rows st)
     = errors st @ map no_class_found (filter (\<lambda>r. classIdMap st (q_vc_class_id r) = None) rows)"
proof (induction rows arbitrary: st)
  case Nil
  then show ?case by simp
next
  case (Cons r rows)
  have "errors (sync_enrollment no_faults now r st)
      = errors st @ (if classIdMap st (q_vc_class_id r) = None then [no_class_found r] else [])"
    by (cases rule: sync_enrollment_cases[of st r no_faults now])
       (simp_all add: no_faults_def no_class_found_def)
  with Cons.IH[of "sync_enrollment no_faults now r st"] show ?case by simp
qed

lemma sync_classes_unresolved_iff:
  assumes wf: "wf_store S"
  shows "classIdMap (sync_classes no_faults now cr S) v = None
     \<longleftrightarrow> v \<notin> set (map c_vc_class_id (asp_classes S)) \<union> set (map r_vc_class_id cr)"
proof -
  let ?A = "fold (sync_class no_faults now) cr (initial_state S)"
  have inv: "phaseA_inv (asp_classes S) ?A"
    using phaseA_inv_fold[OF phaseA_inv_initial[OF wf]] .
  then have m: "classIdMap ?A = idmap (s_classes ?A)"
    and pre: "prefix (existingClasses (asp_classes S)) (existingClasses (s_classes ?A))"
    and src: "\<forall>c\<in>set (s_classes ?A). (c_id c, c_vc_class_id c) \<in> set (existingClasses (asp_classes S))
            \<or> c_vc_class_id c \<in> bqClassIds ?A"
    by (simp_all add: phaseA_inv_def)
  have bq: "bqClassIds ?A = set (map r_vc_class_id cr)" by simp
  show ?thesis
  proof
    assume none: "classIdMap (sync_classes no_faults now cr S) v = None"
    show "v \<notin> set (map c_vc_class_id (asp_classes S)) \<union> set (map r_vc_class_id cr)"
    proof
      assume "v \<in> set (map c_vc_class_id (asp_classes S)) \<union> set (map r_vc_class_id cr)"
      then consider c where "c \<in> set (asp_classes S)" "c_vc_class_id c = v"
        | r where "r \<in> set cr" "r_vc_class_id r = v" by auto
      then show False
      proof cases
        case 1
        then have "(c_id c, v) \<in> set (existingClasses (asp_classes S))"
          using pairs_mem by blast
        with pre have "(c_id c, v) \<in> set (existingClasses (s_classes ?A))"
          using set_mono_prefix by blast
        then obtain c' where "c' \<in> set (s_classes ?A)" "c_vc_class_id c' = v"
          using pairs_memD by blast
        with idmap_defined[of c' "s_classes ?A"] m none show False
          by (simp add: sync_classes_eq)
      next
        case 2
        with fold_sync_class_resolves[of r cr now "initial_state S"] none show False
          by (simp add: sync_classes_eq)
      qed
    qed
  next
    assume nv: "v \<notin> set (map c_vc_class_id (asp_classes S)) \<union> set (map r_vc_class_id cr)"
    show "classIdMap (sync_classes no_faults now cr S) v = None"
    proof (rule ccontr)
      assume "classIdMap (sync_classes no_faults now cr S) v \<noteq> None"
      then obtain i where "idmap (s_classes ?A) v = Some i"
        using m by (auto simp: sync_classes_eq)
      then obtain c where c: "c \<in> set (s_classes ?A)" "c_id c = i" "c_vc_class_id c = v"
        using idmap_Some by blast
      with src have "(i, v) \<in> set (existingClasses (asp_classes S)) \<or> v \<in> bqClassIds ?A"
        by blast
      with nv bq show False
        using pairs_memD[of i v "asp_classes S"] by auto
    qed
  qed
qed

lemma run_sync_errors:
  assumes wf: "wf_store S"
  shows "errors (run_sync no_faults now cr er S)
     = map no_class_found
         (filter (\<lambda>r. q_vc_class_id r \<notin> set (map c_vc_class_id (asp_classes S))
                                        \<union> set (map r_vc_class_id cr)) er)"
proof -
  have "errors (sync_classes no_faults now cr S) = []"
    by (simp add: sync_classes_def fold_sync_class_errors)
  then show ?thesis
    unfolding run_sync_def sync_enrollments_eq fold_sync_enrollment_errors
    by (simp add: sync_classes_unresolved_iff[OF wf])
qed

lemma run_sync_enrolled:
  assumes wf: "wf_store S" and r: "r \<in> set er"
    and u: "classIdMap (run_sync no_faults now cr er S) (q_vc_class_id r) = Some u"
  shows "\<exists>e\<in>set (s_enrollments (run_sync no_faults now cr er S)).
           e_class_id e = u \<and> e_student_person_id e = q_student_person_id r
           \<and> e_source e = ''veracross'' \<and> e_status e = ''active''"
proof -
  let ?B = "sync_classes no_faults now cr S"
  let ?R = "run_sync no_faults now cr er S"
  let ?k = "(u, q_student_person_id r)"
  from u have rk: "row_key (classIdMap ?B) r = Some ?k"
    by (simp add: run_sync_eq row_key_def)
  with r have "?k \<in> bqEnrollmentKeys ?R"
    unfolding run_sync_eq by blast
  with run_sync_covered[of now cr er S] obtain e where e: "e \<in> set (s_enrollments ?R)"
    "key_of e = ?k"
    by auto
  from r rk have "\<exists>x\<in>set (rev er). row_key (classIdMap ?B) x = Some ?k" by auto
  then obtain r' where "last_enrollment_for (classIdMap ?B) er ?k = Some r'"
    unfolding last_enrollment_for_def
    by (cases "find (\<lambda>r. row_key (classIdMap ?B) r = Some ?k) (rev er)") (auto simp: find_None_iff)
  with run_sync_settled[OF wf e(1), of r'] e(2) have "merged_with r' e = e" by simp
  then have "e_source e = ''veracross'' \<and> e_status e = ''active''"
    unfolding merged_with_def using merge_fields by blast
  with e show ?thesis
    by (auto simp: key_of_def)
qed

text \<open>
  C6. A feed enrollment whose external class id the map does not resolve is skipped: the
  iteration appends one message that cites the id and changes nothing else. From a store
  with unique row ids and without rejected writes, the error list of the pass is exactly
  these messages, one for each feed enrollment whose class is neither stored nor in the
  class feed, in feed order; every other feed enrollment has an active row of the sync
  for its class and student after the pass. Whatever the store rejects, the pass ends
  with a summary that reports success, the errors and their number.
\<close>

theorem C6_unknown_class_is_skipped_and_reported:
  "(classIdMap st (q_vc_class_id row) = None \<longrightarrow>
      sync_enrollment flt now row st
        = st\<lparr>errors := errors st @ [''No class found for vc_class_id: '' @ q_vc_class_id row]\<rparr>)
   \<and> (wf_store S \<longrightarrow>
        errors (run_sync no_faults now cr er S)
          = map (\<lambda>r. ''No class found for vc_class_id: '' @ q_vc_class_id r)
              (filter (\<lambda>r. q_vc_class_id r \<notin> set (map c_vc_class_id (asp_classes S))
                                             \<union> set (map r_vc_class_id cr)) er)
        \<and> (\<forall>r\<in>set er. q_vc_class_id r \<in> set (map c_vc_class_id (asp_classes S))
                                             \<union> set (map r_vc_class_id cr) \<longrightarrow>
             (\<exists>e\<in>set (asp_enrollments (fst (POST no_faults now el (Some (cr, er)) S))).
                classIdMap (run_sync no_faults now cr er S) (q_vc_class_id r) = Some (e_class_id e)
                \<and> e_student_person_id e = q_student_person_id r
                \<and> e_source e = ''veracross'' \<and> e_status e = ''active'')))
   \<and> (\<exists>sm. snd (POST flt now el (Some (cr, er)) S) = Synced sm \<and> success sm
          \<and> summary_errors sm = (if errors (run_sync flt now cr er S) = [] then None
                                  else Some (errors (run_sync flt now cr er S)))
          \<and> error_count (summary_counts sm) = length (errors (run_sync flt now cr er S)))"
proof -
  have A: "sync_enrollment flt now row st
        = st\<lparr>errors := errors st @ [''No class found for vc_class_id: '' @ q_vc_class_id row]\<rparr>"
    if "classIdMap st (q_vc_class_id row) = None"
    using that by (simp add: sync_enrollment_def)
  have B: "errors (run_sync no_faults now cr er S)
          = map (\<lambda>r. ''No class found for vc_class_id: '' @ q_vc_class_id r)
              (filter (\<lambda>r. q_vc_class_id r \<notin> set (map c_vc_class_id (asp_classes S))
                                             \<union> set (map r_vc_class_id cr)) er)"
    if "wf_store S"
    using run_sync_errors[OF that, of now cr er] by (simp add: no_class_found_def[abs_def])
  have C: "\<exists>e\<in>set (asp_enrollments (fst (POST no_faults now el (Some (cr, er)) S))).
                classIdMap (run_sync no_faults now cr er S) (q_vc_class_id r) = Some (e_class_id e)
                \<and> e_student_person_id e = q_student_person_id r
                \<and> e_source e = ''veracross'' \<and> e_status e = ''active''"
    if wf: "wf_store S" and r: "r \<in> set er"
      and v: "q_vc_class_id r \<in> set (map c_vc_class_id (asp_classes S)) \<union> set (map r_vc_class_id cr)"
    for r
  proof -
    from v sync_classes_unresolved_iff[OF wf, of now cr "q_vc_class_id r"]
    obtain u where "classIdMap (run_sync no_faults now cr er S) (q_vc_class_id r) = Some u"
      unfolding run_sync_eq by auto
    from run_sync_enrolled[OF wf r this] this show ?thesis
      unfolding POST_Some store_after_fields by auto
  qed
  have D: "\<exists>sm. snd (POST flt now el (Some (cr, er)) S) = Synced sm \<and> success sm
          \<and> summary_errors sm = (if errors (run_sync flt now cr er S) = [] then None
                                  else Some (errors (run_sync flt now cr er S)))
          \<and> error_count (summary_counts sm) = length (errors (run_sync flt now cr er S))"
    by (simp add: POST_def Let_def counts_of_def)
  from A B C D show ?thesis by blast
qed

theorem C6_unknown_class_is_skipped_and_reported_witness:
  "wf_store scenario_store
   \<and> classIdMap (sync_classes no_faults 100 scenario_classRows scenario_store) ''X99'' = None
   \<and> errors (run_sync no_faults 100 scenario_classRows scenario_enrollmentRows scenario_store)
       = [''No class found for vc_class_id: X99'']
   \<and> snd (POST no_faults 100 5 (Some (scenario_classRows, scenario_enrollmentRows)) scenario_store)
       = Synced \<lparr>success = True,
           summary_counts = \<lparr>classes_inserted = 1, classes_updated = 1, classes_deactivated = 1,
             enrollments_upserted = 2, enrollments_deactivated = 1, error_count = 1,
             duration_ms = 5\<rparr>,
           total_classes_in_bq = 2, total_enrollments_in_bq = 3,
           summary_errors = Some [''No class found for vc_class_id: X99''], synced_at = 100\<rparr>
   \<and> map (\<lambda>e. (e_class_id e, e_student_person_id e, e_source e, e_status e))
        (asp_enrollments (fst (POST no_faults 100 5
           (Some (scenario_classRows, scenario_enrollmentRows)) scenario_store)))
       = [(1, 7, ''veracross'', ''active''), (2, 8, ''veracross'', ''inactive''),
          (1, 9, ''manual'', ''active''), (6, 9, ''veracross'', ''active'')]"
proof -
  have wf: "wf_store scenario_store"
    by (simp add: wf_store_def scenario_store_def blank_class_def blank_enrollment_def)
  note t = C6_unknown_class_is_skipped_and_reported[where S = scenario_store
      and cr = scenario_classRows and er = scenario_enrollmentRows and now = 100 and el = 5
      and flt = no_faults
      and st = "sync_classes no_faults 100 scenario_classRows scenario_store"
      and row = "\<lparr>q_vc_class_id = ''X99'', q_student_person_id = 5, q_enrollment_status = None\<rparr>"]
  have n: "classIdMap (sync_classes no_faults 100 scenario_classRows scenario_store) ''X99'' = None"
    by code_simp
  have f: "map (\<lambda>r. ''No class found for vc_class_id: '' @ q_vc_class_id r)
              (filter (\<lambda>r. q_vc_class_id r \<notin> set (map c_vc_class_id (asp_classes scenario_store))
                                             \<union> set (map r_vc_class_id scenario_classRows))
                 scenario_enrollmentRows)
           = [''No class found for vc_class_id: X99'']"
    by code_simp
  from t wf have e: "errors (run_sync no_faults 100 scenario_classRows scenario_enrollmentRows scenario_store)
       = [''No class found for vc_class_id: X99'']"
    unfolding f by blast
  have p: "snd (POST no_faults 100 5 (Some (scenario_classRows, scenario_enrollmentRows)) scenario_store)
       = Synced \<lparr>success = True,
           summary_counts = \<lparr>classes_inserted = 1, classes_updated = 1, classes_deactivated = 1,
             enrollments_upserted = 2, enrollments_deactivated = 1, error_count = 1,
             duration_ms = 5\<rparr>,
           total_classes_in_bq = 2, total_enrollments_in_bq = 3,
           summary_errors = Some [''No class found for vc_class_id: X99''], synced_at = 100\<rparr>"
    by code_simp
  have q: "map (\<lambda>e. (e_class_id e, e_student_person_id e, e_source e, e_status e))
        (asp_enrollments (fst (POST no_faults 100 5
           (Some (scenario_classRows, scenario_enrollmentRows)) scenario_store)))
       = [(1, 7, ''veracross'', ''active''), (2, 8, ''veracross'', ''inactive''),
          (1, 9, ''manual'', ''active''), (6, 9, ''veracross'', ''active'')]"
    by code_simp
  from wf n e p q show ?thesis by blast
qed

subsection \<open>Sorting\<close>

lemma mset_insert_by [simp]: "mset (insert_by c x ys) = add_mset x (mset ys)"
  by (induction ys) simp_all

lemma mset_js_sort [simp]: "mset (js_sort c xs) = mset xs"
  by (induction xs) (simp_all add: js_sort_def)

lemma set_js_sort [simp]: "set (js_sort c xs) = set xs"
  using mset_js_sort[of c xs] by (metis set_mset_mset)

lemma length_js_sort [simp]: "length (js_sort c xs) = length xs"
  using mset_js_sort[of c xs] by (metis size_mset)

lemma js_sort_Nil [simp]: "js_sort c [] = []"
  by (simp add: js_sort_def)

lemma js_sort_Cons: "js_sort c (x # xs) = insert_by c x (js_sort c xs)"
  by (simp add: js_sort_def)

lemma sorted_insert_by:
  assumes total: "\<And>a b. c a b \<le> 0 \<or> c b a \<le> 0"
    and trans: "\<And>a b d. c a b \<le> 0 \<Longrightarrow> c b d \<le> 0 \<Longrightarrow> c a d \<le> 0"
  shows "sorted_wrt (\<lambda>a b. c a b \<le> 0) ys \<Longrightarrow> sorted_wrt (\<lambda>a b. c a b \<le> 0) (insert_by c x ys)"
proof (induction ys)
  case Nil
  then show ?case by simp
next
  case (Cons y ys)
  show ?case
  proof (cases "c x y \<le> 0")
    case True
    with Cons.prems trans show ?thesis by auto
  next
    case False
    with total have "c y x \<le> 0" by blast
    moreover have "set (insert_by c x ys) = insert x (set ys)"
      using mset_insert_by[of c x ys] by (metis set_mset_add_mset_insert set_mset_mset)
    ultimately show ?thesis
      using False Cons by auto
  qed
qed

lemma sorted_js_sort:
  assumes total: "\<And>a b. c a b \<le> 0 \<or> c b a \<le> 0"
    and trans: "\<And>a b d. c a b \<le> 0 \<Longrightarrow> c b d \<le> 0 \<Longrightarrow> c a d \<le> 0"
  shows "sorted_wrt (\<lambda>a b. c a b \<le> 0) (js_sort c xs)"
  by (induction xs) (simp_all add: js_sort_Cons sorted_insert_by[OF total trans])

lemma consistent_total: "consistent cmp \<Longrightarrow> cmp a b \<le> 0 \<or> cmp b a \<le> 0"
  unfolding consistent_def by (elim conjE allE)

lemma consistent_trans: "consistent cmp \<Longrightarrow> cmp a b \<le> 0 \<Longrightarrow> cmp b d \<le> 0 \<Longrightarrow> cmp a d \<le> 0"
  unfolding consistent_def by (elim conjE allE impE) (rule conjI)

lemma sorted_js_sort_key:
  assumes "consistent cmp"
  shows "sorted_wrt (\<lambda>a b. cmp (f a) (f b) \<le> 0) (js_sort (\<lambda>a b. cmp (f a) (f b)) xs)"
proof (rule sorted_js_sort[of "\<lambda>a b. cmp (f a) (f b)"])
  show "cmp (f a) (f b) \<le> 0 \<or> cmp (f b) (f a) \<le> 0" for a b
    by (rule consistent_total[OF assms])
  show "cmp (f a) (f d) \<le> 0" if "cmp (f a) (f b) \<le> 0" "cmp (f b) (f d) \<le> 0" for a b d
    using consistent_trans[OF assms that] .
qed

text \<open>Stability: elements that compare as equal among themselves keep their order.\<close>

lemma filter_insert_by:
  assumes "\<And>a b. P a \<Longrightarrow> P b \<Longrightarrow> c a b \<le> 0"
  shows "filter P (insert_by c x ys) = (if P x then x # filter P ys else filter P ys)"
  using assms by (induction ys) auto

lemma filter_js_sort:
  assumes "\<And>a b. P a \<Longrightarrow> P b \<Longrightarrow> c a b \<le> 0"
  shows "filter P (js_sort c xs) = filter P xs"
  by (induction xs) (simp_all add: js_sort_Cons filter_insert_by[of P c, OF assms])

lemma compare_codes_total: "compare_codes a b \<le> 0 \<or> compare_codes b a \<le> 0"
  by (induction a b rule: compare_codes.induct) auto

lemma compare_codes_Cons_le:
  "compare_codes (x # xs) (y # ys) \<le> 0 \<longleftrightarrow> x < y \<or> (x = y \<and> compare_codes xs ys \<le> 0)"
  by auto

lemma compare_codes_Nil_le: "compare_codes [] b \<le> 0"
  by (cases b) simp_all

lemma compare_codes_le_Nil: "compare_codes a [] \<le> 0 \<longleftrightarrow> a = []"
  by (cases a) simp_all

lemma compare_codes_trans:
  "compare_codes a b \<le> 0 \<Longrightarrow> compare_codes b d \<le> 0 \<Longrightarrow> compare_codes a d \<le> 0"
proof (induction a arbitrary: b d)
  case Nil
  then show ?case by (simp add: compare_codes_Nil_le)
next
  case (Cons x xs)
  from Cons.prems(1) obtain y ys where b: "b = y # ys"
    by (cases b) simp_all
  from Cons.prems(2) b obtain z zs where d: "d = z # zs"
    by (cases d) simp_all
  from Cons.prems b d have 1: "x < y \<or> (x = y \<and> compare_codes xs ys \<le> 0)"
    and 2: "y < z \<or> (y = z \<and> compare_codes ys zs \<le> 0)"
    by (simp_all only: compare_codes_Cons_le)
  then have "x < z \<or> (x = z \<and> compare_codes xs zs \<le> 0)"
    using Cons.IH[of ys zs] by auto
  then show ?case
    unfolding d by (simp only: compare_codes_Cons_le)
qed

lemma consistent_case_insensitive: "consistent case_insensitive_compare"
  unfolding consistent_def case_insensitive_compare_def
proof (intro conjI allI impI)
  fix a b c
  show "compare_codes (map of_char (toLowerCase a)) (map of_char (toLowerCase b)) \<le> 0
      \<or> compare_codes (map of_char (toLowerCase b)) (map of_char (toLowerCase a)) \<le> 0"
    by (rule compare_codes_total)
  assume "compare_codes (map of_char (toLowerCase a)) (map of_char (toLowerCase b)) \<le> 0
      \<and> compare_codes (map of_char (toLowerCase b)) (map of_char (toLowerCase c)) \<le> 0"
  then show "compare_codes (map of_char (toLowerCase a)) (map of_char (toLowerCase c)) \<le> 0"
    using compare_codes_trans by blast
qed

subsection \<open>Claims C8 and C9: order and placeholders of the rosters\<close>

lemma loadEnrollments_rows:
  "ps_enrollments (loadEnrollments cmp db classId today)
     = js_sort (\<lambda>a b. cmp (st_last_name (ews_student a)) (st_last_name (ews_student b)))
         (enriched_rows db classId)"
  by (simp add: loadEnrollments_def Let_def enriched_rows_def class_enrollments_by_creation_def)

lemma loadEnrollments_earlier_rows:
  "eps_enrollments (loadEnrollments_earlier cmp db classId today)
     = ps_enrollments (loadEnrollments cmp db classId today)"
  by (simp add: loadEnrollments_earlier_def loadEnrollments_def Let_def)

lemma mset_classStudents:
  "mset (classStudents cmp sm ab es cid)
     = mset (map (roster_entry sm ab) (filter (\<lambda>e. e_class_id e = cid) es))"
  by (simp add: classStudents_def)

lemma roster_entry_unknown:
  "sm (e_student_person_id e) = None \<Longrightarrow>
   rs_name (roster_entry sm ab e) = ''Unknown Student'' \<and> rs_grade (roster_entry sm ab e) = 0"
  by (simp add: roster_entry_def)

lemma roster_entry_known:
  "sm (e_student_person_id e) = Some s \<Longrightarrow>
   rs_name (roster_entry sm ab e) = st_last_name s @ '', '' @ st_first_name s
   \<and> rs_grade (roster_entry sm ab e) = st_grade_level s"
  by (simp add: roster_entry_def)

lemma enrich_unknown:
  "find (\<lambda>s. st_person_id s = e_student_person_id e) sd = None \<Longrightarrow>
   ews_student (enrich sd e)
     = \<lparr>st_id = 0, st_person_id = e_student_person_id e, st_first_name = ''Unknown'',
        st_last_name = ''Student'', st_grade_level = 0\<rparr>"
  by (simp add: enrich_def)

text \<open>
  C8 (as amended). With a comparison that is total and transitive, the students of an
  email roster are the entries of the class's enrollments arranged in ascending order of
  the displayed name \<^verbatim>\<open>Last, First\<close>; the rows of the class page are its enriched
  enrollments arranged in ascending order of the last name alone, and rows of one last
  name keep the order in which they were fetched (the order of creation), whatever their
  first names. The two revisions of the class page have the same rows.
\<close>

theorem C8_rosters_sorted_by_name:
  assumes "consistent cmp"
  shows "sorted_wrt (\<lambda>a b. cmp (rs_name a) (rs_name b) \<le> 0) (classStudents cmp sm ab es cid)
       \<and> mset (classStudents cmp sm ab es cid)
           = mset (map (roster_entry sm ab) (filter (\<lambda>e. e_class_id e = cid) es))
       \<and> sorted_wrt (\<lambda>a b. cmp (st_last_name (ews_student a)) (st_last_name (ews_student b)) \<le> 0)
           (ps_enrollments (loadEnrollments cmp db classId today))
       \<and> mset (ps_enrollments (loadEnrollments cmp db classId today)) = mset (enriched_rows db classId)
       \<and> filter (\<lambda>x. st_last_name (ews_student x) = l)
            (ps_enrollments (loadEnrollments cmp db classId today))
           = filter (\<lambda>x. st_last_name (ews_student x) = l) (enriched_rows db classId)
       \<and> eps_enrollments (loadEnrollments_earlier cmp db classId today)
           = ps_enrollments (loadEnrollments cmp db classId today)"
proof -
  have refl: "cmp a a \<le> 0" for a
    using consistent_total[OF assms, of a a] by simp
  have "filter (\<lambda>x. st_last_name (ews_student x) = l)
          (js_sort (\<lambda>a b. cmp (st_last_name (ews_student a)) (st_last_name (ews_student b)))
             (enriched_rows db classId))
        = filter (\<lambda>x. st_last_name (ews_student x) = l) (enriched_rows db classId)"
    by (rule filter_js_sort) (simp add: refl)
  moreover have "sorted_wrt (\<lambda>a b. cmp (rs_name a) (rs_name b) \<le> 0) (classStudents cmp sm ab es cid)"
    unfolding classStudents_def by (rule sorted_js_sort_key[OF assms])
  moreover have "sorted_wrt (\<lambda>a b. cmp (st_last_name (ews_student a)) (st_last_name (ews_student b)) \<le> 0)
      (js_sort (\<lambda>a b. cmp (st_last_name (ews_student a)) (st_last_name (ews_student b)))
         (enriched_rows db classId))"
    by (rule sorted_js_sort_key[OF assms, of "\<lambda>x. st_last_name (ews_student x)"])
  ultimately show ?thesis
    unfolding loadEnrollments_earlier_rows loadEnrollments_rows by (simp add: mset_classStudents)
qed

theorem C8_rosters_sorted_by_name_witness:
  "consistent case_insensitive_compare
   \<and> js_sort case_insensitive_compare [''Smith, Ann'', ''adams, Bob''] = [''adams, Bob'', ''Smith, Ann'']
   \<and> map rs_name (classStudents case_insensitive_compare (studentMap_of (t_students roster_tables)) {}
         (t_enrollments roster_tables) 1)
       = [''adams, Bob'', ''Smith, Ann'', ''Smith, Zed'', ''Unknown Student'']
   \<and> sorted_wrt (\<lambda>a b. case_insensitive_compare (rs_name a) (rs_name b) \<le> 0)
         (classStudents case_insensitive_compare (studentMap_of (t_students roster_tables)) {}
            (t_enrollments roster_tables) 1)
   \<and> filter (\<lambda>x. st_last_name (ews_student x) = ''Smith'')
         (ps_enrollments (loadEnrollments case_insensitive_compare roster_tables 1 ''2026-01-05''))
       = filter (\<lambda>x. st_last_name (ews_student x) = ''Smith'') (enriched_rows roster_tables 1)"
proof -
  note t = C8_rosters_sorted_by_name[OF consistent_case_insensitive,
      of "studentMap_of (t_students roster_tables)" "{}" "t_enrollments roster_tables" 1
         roster_tables 1 "''2026-01-05''" "''Smith''"]
  have a: "js_sort case_insensitive_compare [''Smith, Ann'', ''adams, Bob''] = [''adams, Bob'', ''Smith, Ann'']"
    by code_simp
  have b: "map rs_name (classStudents case_insensitive_compare (studentMap_of (t_students roster_tables)) {}
         (t_enrollments roster_tables) 1)
       = [''adams, Bob'', ''Smith, Ann'', ''Smith, Zed'', ''Unknown Student'']"
    by code_simp
  from t a b consistent_case_insensitive show ?thesis by blast
qed

text \<open>
  C8 as stated fails on the class page: its rows are sorted by last name only, so Zed
  Smith, enrolled first, stays before Ann Smith.
\<close>

theorem C8_counterexample:
  "map (\<lambda>x. (st_last_name (ews_student x), st_first_name (ews_student x)))
     (ps_enrollments (loadEnrollments case_insensitive_compare roster_tables 1 ''2026-01-05''))
   = [(''adams'', ''Bob''), (''Smith'', ''Zed''), (''Smith'', ''Ann''), (''Student'', ''Unknown'')]
   \<and> map (\<lambda>x. (st_last_name (ews_student x), st_first_name (ews_student x)))
     (eps_enrollments (loadEnrollments_earlier case_insensitive_compare roster_tables 1 ''2026-01-05''))
   = [(''adams'', ''Bob''), (''Smith'', ''Zed''), (''Smith'', ''Ann''), (''Student'', ''Unknown'')]"
  by code_simp



subsection \<open>Claims C3 and C10: absences and days in the daily email\<close>

lemma all_or_none_Some: "all_or_none xs = Some ys \<Longrightarrow> xs = map Some ys"
  by (induction xs arbitrary: ys rule: all_or_none.induct) (auto split: option.splits)

lemma roster_of_day:
  "roster_of cmp sm ab es cls = Some r \<Longrightarrow> cr_dayOfWeek r = c_day_of_week cls"
  by (auto simp: roster_of_def split: option.splits)

lemma email_rosters_day:
  assumes "email_rosters cmp db today classes = Some rosters"
    and "r \<in> set rosters"
  shows "\<exists>cls \<in> set classes. cr_dayOfWeek r = c_day_of_week cls"
proof -
  from assms(1) obtain sm ab es where m: "map (roster_of cmp sm ab es) classes = map Some rosters"
    unfolding email_rosters_def Let_def by (blast dest: all_or_none_Some)
  from assms(2) have "Some r \<in> set (map Some rosters)" by simp
  with m have "Some r \<in> set (map (roster_of cmp sm ab es) classes)" by simp
  then obtain cls where "cls \<in> set classes" "roster_of cmp sm ab es cls = Some r" by auto
  then show ?thesis by (blast dest: roster_of_day)
qed

lemma select_classes_day: "c \<in> set (select_classes db d) \<Longrightarrow> c_day_of_week c = d"
  by (simp add: select_classes_def set_js_sort)

lemma email_rosters_manual_absences:
  "email_rosters cmp (db\<lparr>t_manual_absences := m\<rparr>) today classes = email_rosters cmp db today classes"
  by (simp add: email_rosters_def select_enrollments_def select_students_def
      select_master_attendance_def)

lemma select_manual_absences:
  "select_classes (db\<lparr>t_manual_absences := m\<rparr>) d = select_classes db d"
  "select_enrollments (db\<lparr>t_manual_absences := m\<rparr>) ids = select_enrollments db ids"
  by (simp_all add: select_classes_def select_enrollments_def)

lemma send_daily_email_manual_absences:
  "send_daily_email cmp env (db\<lparr>t_manual_absences := m\<rparr>) = send_daily_email cmp env db"
  unfolding send_daily_email_def email_rosters_manual_absences select_manual_absences Let_def
  by (simp cong: option.case_cong if_cong)

lemma weekend_day:
  "d \<in> {0, 5, 6} \<Longrightarrow> days ! d \<in> set [''Friday'', ''Saturday'', ''Sunday'']"
  by (auto simp: days_def)

lemma send_daily_email_test:
  assumes "isTest env"
  shows "send_daily_email cmp env db = send_daily_email cmp (env\<lparr>getDay := d\<rparr>) db"
  using assms by (simp add: send_daily_email_def Let_def cong: option.case_cong if_cong)

lemma send_daily_email_test_effects:
  assumes "isTest env" and "x \<in> set (snd (send_daily_email cmp env db))"
  shows "(\<forall>day. x = Select_classes day \<longrightarrow> day = ''Monday'')
       \<and> (\<forall>to subject day rosters t. x = Send_email to subject day rosters t \<longrightarrow>
            day = ''Monday''
            \<and> email_rosters cmp db (iso_date env) (select_classes db ''Monday'') = Some rosters)"
  using assms
  by (auto simp: send_daily_email_def Let_def split: option.splits if_splits)




end
